theory Spec2Isabelle
  imports Complex_Main
begin

section \<open>Data model of the experiment task\<close>

text \<open>
  The component under study is \<^verbatim>\<open>ExperimentTask\<close> in its latest revision (one-back
  scoring, three sessions of three blocks). A trial is the object literal
  \<^verbatim>\<open>{id, type, isPMCue, src}\<close>; the fields \<^verbatim>\<open>id\<close> and \<^verbatim>\<open>type\<close> are written
  \<open>trial_id\<close> and \<open>trial_type\<close> here.
\<close>

datatype sessionType = Pleasant | Neutral | Unpleasant

datatype experimentPhase = PmCue | Trial | BlockEnd | PmCueTransitionToTrial

record trial =
  trial_id :: string
  trial_type :: sessionType
  isPMCue :: bool
  src :: string

text \<open>
  The response object \<^verbatim>\<open>{[key: number]: string[]}\<close>: a partial map from a trial
  index to the keys recorded for it. The index is an integer because the component's
  \<^verbatim>\<open>currentTrialIndex\<close> starts at \<open>-1\<close>.
\<close>

type_synonym responseMap = "int \<rightharpoonup> string list"

text \<open>The six counters of the scorer, the block result and the final result.\<close>

record tally =
  nBackCorrect :: nat
  nBackMissed :: nat
  nBackFalseAlarms :: nat
  pmCueCorrect :: nat
  pmCueMissed :: nat
  pmCueFalseAlarms :: nat

record blockResult = tally +
  totalImages :: nat
  totalPMCues :: nat
  totalNBackMatches :: nat

record finalResults = blockResult +
  nBackAccuracy :: string
  pmCueAccuracy :: string
  resultSessionResults :: "sessionType \<Rightarrow> blockResult list"

text \<open>
  The React state of the component, one field per \<^verbatim>\<open>useState\<close> hook that the
  sequencing and scoring code reads or writes, and \<^verbatim>\<open>isDebugMode\<close>, which decides
  whether the buttons of the debug controls are there to be clicked (\<^verbatim>\<open>startTime\<close> and
  \<^verbatim>\<open>isFullScreen\<close> only feed the display and are left out).
\<close>

record state =
  currentSession :: sessionType
  currentBlock :: nat
  currentPhase :: experimentPhase
  pmCues :: "trial list"
  trials :: "trial list"
  currentPMCueIndex :: nat
  currentTrialIndex :: int
  showFixation :: bool
  waitingForSpacebar :: bool
  waitingForSpacebarAfterPMCues :: bool
  responses :: responseMap
  sessionResults :: "sessionType \<Rightarrow> blockResult list"
  results :: finalResults
  isExperimentActive :: bool
  isPaused :: bool
  initialized :: bool
  isLoading :: bool
  isDebugMode :: bool

section \<open>The scorer\<close>

text \<open>\<^verbatim>\<open>responses[index] || []\<close>: a missing entry reads as the empty array.\<close>

definition trialResponsesAt :: "responseMap \<Rightarrow> int \<Rightarrow> string list" where
  "trialResponsesAt rs i = (case rs i of None \<Rightarrow> [] | Some ks \<Rightarrow> ks)"

text \<open>\<^verbatim>\<open>isOneBackMatch\<close>, the check the display uses for the current trial.\<close>

definition isOneBackMatch :: "trial list \<Rightarrow> int \<Rightarrow> bool" where
  "isOneBackMatch ts index =
     (if index \<le> 0 \<or> index \<ge> int (length ts) then False
      else trial_id (ts ! nat index) = trial_id (ts ! nat (index - 1)))"

definition zeroTally :: tally where
  "zeroTally = \<lparr>nBackCorrect = 0, nBackMissed = 0, nBackFalseAlarms = 0,
                 pmCueCorrect = 0, pmCueMissed = 0, pmCueFalseAlarms = 0\<rparr>"

text \<open>
  The body of \<^verbatim>\<open>trials.forEach((trial, index) => ...)\<close> in
  \<^verbatim>\<open>evaluateBlockPerformance\<close>. The callback closes over the counters and over the
  component state; it is modelled as a step on the pair of both, so that what it writes
  is visible.
\<close>

definition scoreNBack :: "state \<Rightarrow> nat \<Rightarrow> tally \<Rightarrow> tally" where
  "scoreNBack st index t =
     (let trialResponses = trialResponsesAt (responses st) (int index) in
      if index > 0 then
        (let isNBackMatch = (trial_id (trials st ! index) = trial_id (trials st ! (index - 1))) in
         if isNBackMatch then
           (if ''n'' \<in> set trialResponses
            then t\<lparr>nBackCorrect := nBackCorrect t + 1\<rparr>
            else t\<lparr>nBackMissed := nBackMissed t + 1\<rparr>)
         else if ''n'' \<in> set trialResponses
           then t\<lparr>nBackFalseAlarms := nBackFalseAlarms t + 1\<rparr>
           else t)
      else t)"

definition scorePMCue :: "state \<Rightarrow> nat \<Rightarrow> tally \<Rightarrow> tally" where
  "scorePMCue st index t =
     (let trialResponses = trialResponsesAt (responses st) (int index) in
      if isPMCue (trials st ! index) then
        (if ''z'' \<in> set trialResponses
         then t\<lparr>pmCueCorrect := pmCueCorrect t + 1\<rparr>
         else t\<lparr>pmCueMissed := pmCueMissed t + 1\<rparr>)
      else
        (if ''z'' \<in> set trialResponses
         then t\<lparr>pmCueFalseAlarms := pmCueFalseAlarms t + 1\<rparr>
         else t))"

definition scoreTrial :: "nat \<Rightarrow> tally \<times> state \<Rightarrow> tally \<times> state" where
  "scoreTrial index = (\<lambda>(t, st). (scorePMCue st index (scoreNBack st index t), st))"

text \<open>
  \<^verbatim>\<open>evaluateBlockPerformance\<close>: the three totals are computed with \<^verbatim>\<open>filter\<close>, the
  counters by the loop over every index of \<^verbatim>\<open>trials\<close>. The function returns the block
  result together with the state it leaves behind.
\<close>

definition evaluateBlockPerformance :: "state \<Rightarrow> blockResult \<times> state" where
  "evaluateBlockPerformance st0 =
     (let n_images = length (filter (\<lambda>t. \<not> isPMCue t) (trials st0));
          n_cues = length (filter isPMCue (trials st0));
          n_matches = length (filter
             (\<lambda>index. index > 0 \<and> trial_id (trials st0 ! index) = trial_id (trials st0 ! (index - 1)))
             [0..<length (trials st0)]);
          (t, st) = fold scoreTrial [0..<length (trials st0)] (zeroTally, st0)
      in (\<lparr>nBackCorrect = nBackCorrect t, nBackMissed = nBackMissed t,
            nBackFalseAlarms = nBackFalseAlarms t, pmCueCorrect = pmCueCorrect t,
            pmCueMissed = pmCueMissed t, pmCueFalseAlarms = pmCueFalseAlarms t,
            totalImages = n_images, totalPMCues = n_cues, totalNBackMatches = n_matches\<rparr>, st))"

section \<open>The scorer over an explicit store\<close>

text \<open>
  The hooks \<^verbatim>\<open>trials\<close> and \<^verbatim>\<open>responses\<close> hold references: to an array of trials, and to
  an object whose properties are references to arrays of keys. To state what scoring
  leaves unchanged, the scorer is modelled a second time, statement for statement, over
  a store of such objects, in which a statement could overwrite a cell. What the scorer
  writes is all allocation: the three arrays \<^verbatim>\<open>filter\<close> returns, the empty array of
  \<^verbatim>\<open>responses[index] || []\<close> for an index without an entry, and the object literal of the
  block result. The counters are local variables of the call (the tally that is threaded
  through); \<^verbatim>\<open>console.log\<close> reads its arguments and is left out.
\<close>

type_synonym addr = nat

datatype jsObject = TrialArray "trial list" | KeyArray "string list"
  | ResponseObject "int \<rightharpoonup> addr" | BlockResultObject blockResult

record heap =
  cells :: "addr \<rightharpoonup> jsObject"
  nextAddr :: addr

text \<open>A new object is put into the next free cell.\<close>

definition alloc :: "jsObject \<Rightarrow> heap \<Rightarrow> addr \<times> heap" where
  "alloc obj h = (nextAddr h, h\<lparr>cells := (cells h)(nextAddr h \<mapsto> obj), nextAddr := nextAddr h + 1\<rparr>)"

text \<open>Reading through a reference: the elements of an array, a property of the response object.\<close>

definition trialsAt :: "heap \<Rightarrow> addr \<Rightarrow> trial list" where
  "trialsAt h a = (case cells h a of Some (TrialArray ts) \<Rightarrow> ts | _ \<Rightarrow> [])"

definition keysAt :: "heap \<Rightarrow> addr \<Rightarrow> string list" where
  "keysAt h a = (case cells h a of Some (KeyArray ks) \<Rightarrow> ks | _ \<Rightarrow> [])"

definition propertyAt :: "heap \<Rightarrow> addr \<Rightarrow> int \<Rightarrow> addr option" where
  "propertyAt h a i = (case cells h a of Some (ResponseObject m) \<Rightarrow> m i | _ \<Rightarrow> None)"

text \<open>The response map a reference to a response object stands for.\<close>

definition responsesView :: "heap \<Rightarrow> addr \<Rightarrow> responseMap" where
  "responsesView h a = (\<lambda>i. map_option (keysAt h) (propertyAt h a i))"

text \<open>
  \<^verbatim>\<open>const trialResponses = responses[index] || []\<close>: the array stored for the index (the
  same array, not a copy), or a new empty array.
\<close>

definition trialResponsesRef :: "addr \<Rightarrow> int \<Rightarrow> heap \<Rightarrow> addr \<times> heap" where
  "trialResponsesRef responsesRef index h =
     (case propertyAt h responsesRef index of Some a \<Rightarrow> (a, h) | None \<Rightarrow> alloc (KeyArray []) h)"

text \<open>The callback of \<^verbatim>\<open>trials.forEach\<close> and the scorer, over the store.\<close>

definition scoreTrialOnHeap :: "addr \<Rightarrow> addr \<Rightarrow> nat \<Rightarrow> tally \<times> heap \<Rightarrow> tally \<times> heap" where
  "scoreTrialOnHeap trialsRef responsesRef index = (\<lambda>(t, h).
     (let (trialResponses, h1) = trialResponsesRef responsesRef (int index) h;
          trial = trialsAt h1 trialsRef ! index;
          t1 = (if index > 0 then
                  (let isNBackMatch = (trial_id trial = trial_id (trialsAt h1 trialsRef ! (index - 1))) in
                   if isNBackMatch then
                     (if ''n'' \<in> set (keysAt h1 trialResponses)
                      then t\<lparr>nBackCorrect := nBackCorrect t + 1\<rparr>
                      else t\<lparr>nBackMissed := nBackMissed t + 1\<rparr>)
                   else if ''n'' \<in> set (keysAt h1 trialResponses)
                     then t\<lparr>nBackFalseAlarms := nBackFalseAlarms t + 1\<rparr>
                     else t)
                else t);
          t2 = (if isPMCue trial then
                  (if ''z'' \<in> set (keysAt h1 trialResponses)
                   then t1\<lparr>pmCueCorrect := pmCueCorrect t1 + 1\<rparr>
                   else t1\<lparr>pmCueMissed := pmCueMissed t1 + 1\<rparr>)
                else
                  (if ''z'' \<in> set (keysAt h1 trialResponses)
                   then t1\<lparr>pmCueFalseAlarms := pmCueFalseAlarms t1 + 1\<rparr>
                   else t1))
      in (t2, h1)))"

definition evaluateBlockPerformanceOnHeap :: "addr \<Rightarrow> addr \<Rightarrow> heap \<Rightarrow> blockResult \<times> heap" where
  "evaluateBlockPerformanceOnHeap trialsRef responsesRef h =
     (let (imagesArray, h1) = alloc (TrialArray (filter (\<lambda>t. \<not> isPMCue t) (trialsAt h trialsRef))) h;
          n_images = length (trialsAt h1 imagesArray);
          (cuesArray, h2) = alloc (TrialArray (filter isPMCue (trialsAt h1 trialsRef))) h1;
          n_cues = length (trialsAt h2 cuesArray);
          (matchesArray, h3) = alloc (TrialArray (map (\<lambda>index. trialsAt h2 trialsRef ! index)
             (filter (\<lambda>index. index > 0 \<and> trial_id (trialsAt h2 trialsRef ! index)
                                  = trial_id (trialsAt h2 trialsRef ! (index - 1)))
                [0..<length (trialsAt h2 trialsRef)]))) h2;
          n_matches = length (trialsAt h3 matchesArray);
          (t, h4) = fold (scoreTrialOnHeap trialsRef responsesRef)
                      [0..<length (trialsAt h3 trialsRef)] (zeroTally, h3);
          blockResults = \<lparr>nBackCorrect = nBackCorrect t, nBackMissed = nBackMissed t,
            nBackFalseAlarms = nBackFalseAlarms t, pmCueCorrect = pmCueCorrect t,
            pmCueMissed = pmCueMissed t, pmCueFalseAlarms = pmCueFalseAlarms t,
            totalImages = n_images, totalPMCues = n_cues, totalNBackMatches = n_matches\<rparr>;
          (resultRef, h5) = alloc (BlockResultObject blockResults) h4
      in (blockResults, h5))"

text \<open>
  A store is well formed for the two references when no cell lies at or beyond the next
  free address, both references point to cells, and so does every property of the
  response object. A store extends another when it keeps every cell of it.
\<close>

definition allocated :: "heap \<Rightarrow> bool" where
  "allocated h = (\<forall>a\<in>dom (cells h). a < nextAddr h)"

definition wellFormed :: "heap \<Rightarrow> addr \<Rightarrow> addr \<Rightarrow> bool" where
  "wellFormed h trialsRef responsesRef =
     (allocated h \<and> trialsRef \<in> dom (cells h) \<and> responsesRef \<in> dom (cells h)
      \<and> (\<forall>i a. propertyAt h responsesRef i = Some a \<longrightarrow> a \<in> dom (cells h)))"

definition extends :: "heap \<Rightarrow> heap \<Rightarrow> bool" where
  "extends h h' = (allocated h' \<and> (\<forall>a\<in>dom (cells h). cells h' a = cells h a))"

section \<open>Strings and numbers as the source formats them\<close>

text \<open>Template literals print a number in decimal.\<close>

definition digitChar :: "nat \<Rightarrow> char" where
  "digitChar d = ''0123456789'' ! d"

fun showNat :: "nat \<Rightarrow> string" where
  "showNat n = (if n < 10 then [digitChar n] else showNat (n div 10) @ [digitChar (n mod 10)])"

declare showNat.simps [simp del]

definition categoryName :: "sessionType \<Rightarrow> string" where
  "categoryName s = (case s of Pleasant \<Rightarrow> ''pleasant'' | Neutral \<Rightarrow> ''neutral''
                      | Unpleasant \<Rightarrow> ''unpleasant'')"

text \<open>
  \<^verbatim>\<open>e.key.toLowerCase()\<close>, on the eight-bit characters of \<open>string\<close>: the letters
  \<open>A\<close> to \<open>Z\<close> are mapped to \<open>a\<close> to \<open>z\<close>, every other character is kept.
\<close>

definition toLowerChar :: "char \<Rightarrow> char" where
  "toLowerChar c = (let n = (of_char c :: nat) in if 65 \<le> n \<and> n \<le> 90 then char_of (n + 32) else c)"

definition toLowerCase :: "string \<Rightarrow> string" where
  "toLowerCase s = map toLowerChar s"

text \<open>
  A number of the source is an IEEE 754 double. Its value is a rational, and an
  arithmetic operation returns the exact result rounded to the nearest double, to the
  one with the even significand on a tie: \<open>fround\<close>. A double has a significand of 53
  bits; \<open>expo x\<close> is the exponent \<open>e\<close> with \<open>2\<^sup>e \<le> x < 2\<^sup>e\<^sup>+\<^sup>1\<close>, and below \<open>2\<^sup>-\<^sup>1\<^sup>0\<^sup>2\<^sup>2\<close>
  the doubles are \<open>2\<^sup>-\<^sup>1\<^sup>0\<^sup>7\<^sup>4\<close> apart. Results of magnitude \<open>2\<^sup>1\<^sup>0\<^sup>2\<^sup>4\<close> and more
  (\<^verbatim>\<open>Infinity\<close>) are outside the model. The counters of the scorer are integers that a
  double holds exactly; they are naturals here.
\<close>

fun bitLength :: "nat \<Rightarrow> nat" where
  "bitLength n = (if n = 0 then 0 else Suc (bitLength (n div 2)))"

declare bitLength.simps [simp del]

definition expo :: "rat \<Rightarrow> int" where
  "expo x = (if 1 \<le> x then int (bitLength (nat \<lfloor>x\<rfloor>)) - 1
             else - int (bitLength (nat (\<lceil>1 / x\<rceil> - 1))))"

definition roundEven :: "rat \<Rightarrow> int" where
  "roundEven z = (let f = \<lfloor>z\<rfloor>; d = z - of_int f in
                  if d < 1 / 2 then f else if 1 / 2 < d then f + 1
                  else if even f then f else f + 1)"

definition fround :: "rat \<Rightarrow> rat" where
  "fround x = (if x = 0 then 0
               else (let u = 2 powi (max (expo \<bar>x\<bar>) (- 1022) - 52)
                     in of_int (roundEven (x / u)) * u))"

text \<open>
  \<^verbatim>\<open>x.toFixed(2)\<close> for a double \<open>0 \<le> x < 10\<^sup>2\<^sup>1\<close>: the integer \<open>n\<close> with \<open>n / 100\<close>
  nearest to the value of \<open>x\<close>, the larger one on a tie, printed with two decimals.
\<close>

definition toFixed2 :: "rat \<Rightarrow> string" where
  "toFixed2 x = (let n = nat \<lfloor>x * 100 + 1 / 2\<rfloor>
                 in showNat (n div 100) @ ''.'' @ [digitChar (n div 10 mod 10), digitChar (n mod 10)])"

text \<open>
  The expression \<^verbatim>\<open>(correct / total * 100).toFixed(2)\<close> of the four places that compute
  an accuracy: a division and a multiplication of doubles, then the conversion.
\<close>

definition accuracyPercent :: "nat \<Rightarrow> nat \<Rightarrow> string" where
  "accuracyPercent correct totalCount =
     toFixed2 (fround (fround (of_nat correct / of_nat totalCount) * 100))"

section \<open>The trial generator\<close>

text \<open>\<^verbatim>\<open>generateImagePaths(category, count = 76)\<close> and the three image arrays.\<close>

definition generateImagePaths :: "sessionType \<Rightarrow> nat \<Rightarrow> string list" where
  "generateImagePaths category n =
     map (\<lambda>i. ''/images/'' @ categoryName category @ ''/'' @ categoryName category
                @ showNat i @ ''.jpg'') [1..<n + 1]"

definition imagesOf :: "sessionType \<Rightarrow> string list" where
  "imagesOf s = generateImagePaths s 76"

text \<open>\<^verbatim>\<open>generatePMCuesByBlock(category)\<close>: six cue objects for each of the three blocks.\<close>

record pmCuesByBlock =
  block1 :: "trial list"
  block2 :: "trial list"
  block3 :: "trial list"

definition pmCueImage :: "sessionType \<Rightarrow> string \<Rightarrow> nat \<Rightarrow> trial" where
  "pmCueImage category blockName i =
     \<lparr>trial_id = ''pmcue-'' @ categoryName category @ ''-'' @ blockName @ ''-'' @ showNat (i + 1),
      trial_type = category, isPMCue = True,
      src = ''/images/pmcues/'' @ categoryName category @ ''cues/'' @ blockName @ ''/''
            @ categoryName category @ ''cue'' @ showNat (i + 1) @ ''.jpg''\<rparr>"

definition blockCues :: "sessionType \<Rightarrow> string \<Rightarrow> trial list" where
  "blockCues category blockName = map (pmCueImage category blockName) [0..<6]"

definition generatePMCuesByBlock :: "sessionType \<Rightarrow> pmCuesByBlock" where
  "generatePMCuesByBlock category =
     \<lparr>block1 = blockCues category ''block1'', block2 = blockCues category ''block2'',
      block3 = blockCues category ''block3''\<rparr>"

text \<open>
  What \<^verbatim>\<open>Math.random()\<close> contributes to one call of the generator. A draw is a
  rational in \<open>[0, 1)\<close>. \<^verbatim>\<open>[...xs].sort(() => Math.random() - 0.5)\<close> has an inconsistent
  comparator, so all that is known of its result is that it is a permutation of \<open>xs\<close>;
  the permutation is part of the random input, as a list of positions. Each loop reads
  its draws from a list of its own; a loop that needs a draw when the list is used up
  has not returned (\<open>None\<close>).
\<close>

record randomness =
  imageShuffle :: "nat list"
  practiceShuffle :: "nat list"
  repeatDraws :: "rat list"
  cueShuffle :: "nat list"
  cueDraws :: "rat list"

definition isPermutation :: "nat list \<Rightarrow> nat \<Rightarrow> bool" where
  "isPermutation p n = (length p = n \<and> distinct p \<and> list_all (\<lambda>i. i < n) p)"

definition shuffled :: "nat list \<Rightarrow> 'a list \<Rightarrow> 'a list" where
  "shuffled p xs = (if isPermutation p (length xs) then map (\<lambda>i. xs ! i) p else xs)"

datatype error = TypeError

text \<open>\<^verbatim>\<open>xs.findIndex(P)\<close>: the first position that satisfies \<open>P\<close>, or \<open>-1\<close>.\<close>

fun findIndex :: "('a \<Rightarrow> bool) \<Rightarrow> 'a list \<Rightarrow> int" where
  "findIndex P [] = - 1"
| "findIndex P (x # xs) =
     (if P x then 0 else (let r = findIndex P xs in if r < 0 then - 1 else r + 1))"

text \<open>
  \<^verbatim>\<open>xs.splice(start, 0, x)\<close>: a negative start counts from the end, and the start is
  clamped to the bounds of the array.
\<close>

definition spliceInsert :: "int \<Rightarrow> 'a \<Rightarrow> 'a list \<Rightarrow> 'a list" where
  "spliceInsert start x xs =
     (let len = int (length xs);
          k = (if start < 0 then max (len + start) 0 else min start len)
      in take (nat k) xs @ [x] @ drop (nat k) xs)"

text \<open>
  The loop \<^verbatim>\<open>while (nBackCount < nBackMatches)\<close>. Reading \<^verbatim>\<open>.id\<close> of an array slot
  that does not exist throws a \<^verbatim>\<open>TypeError\<close>. \<open>ref\<close> is the array \<^verbatim>\<open>findIndex\<close>
  searches (\<^verbatim>\<open>regularImages\<close>, or \<^verbatim>\<open>practiceImages\<close> on the practice path).
\<close>

fun insertRepeats ::
  "trial list \<Rightarrow> nat \<Rightarrow> rat list \<Rightarrow> trial list \<Rightarrow> int set \<Rightarrow> nat \<Rightarrow> (error + trial list) option" where
  "insertRepeats ref nBackMatches [] arr usedForNBack nBackCount =
     (if nBackCount < nBackMatches then None else Some (Inr arr))"
| "insertRepeats ref nBackMatches (r # rest) arr usedForNBack nBackCount =
     (if nBackCount < nBackMatches then
        (let insertPosition = \<lfloor>r * of_int (int (length arr) - 1)\<rfloor> + 1 in
         if insertPosition - 1 < 0 \<or> insertPosition - 1 \<ge> int (length arr) then Some (Inl TypeError)
         else
           (let imageToRepeat = arr ! nat (insertPosition - 1);
                imageIndex = findIndex (\<lambda>img. trial_id img = trial_id imageToRepeat) ref in
            if imageIndex \<notin> usedForNBack
            then insertRepeats ref nBackMatches rest (spliceInsert insertPosition imageToRepeat arr)
                   (insert imageIndex usedForNBack) (nBackCount + 1)
            else insertRepeats ref nBackMatches rest arr usedForNBack nBackCount))
      else Some (Inr arr))"

text \<open>\<^verbatim>\<open>trials[i]?.isPMCue\<close> as a condition: a slot that does not exist is falsy.\<close>

definition isPMCueAt :: "trial list \<Rightarrow> int \<Rightarrow> bool" where
  "isPMCueAt ts i = (0 \<le> i \<and> i < int (length ts) \<and> isPMCue (ts ! nat i))"

text \<open>
  The \<^verbatim>\<open>do ... while\<close> loop that places one cue, and the \<^verbatim>\<open>for\<close> loop over the
  shuffled cues. The draws that are left over are handed to the next cue.
\<close>

fun insertCue :: "trial \<Rightarrow> rat list \<Rightarrow> trial list \<Rightarrow> (trial list \<times> rat list) option" where
  "insertCue pmCue [] ts = None"
| "insertCue pmCue (r # rest) ts =
     (let insertPosition = \<lfloor>r * of_int (int (length ts) + 1)\<rfloor> in
      if (insertPosition > 0 \<and> isPMCueAt ts (insertPosition - 1))
         \<or> (insertPosition < int (length ts) \<and> isPMCueAt ts insertPosition)
      then insertCue pmCue rest ts
      else Some (spliceInsert insertPosition pmCue ts, rest))"

fun insertCues :: "trial list \<Rightarrow> rat list \<Rightarrow> trial list \<Rightarrow> trial list option" where
  "insertCues [] draws ts = Some ts"
| "insertCues (pmCue # cues) draws ts =
     (case insertCue pmCue draws ts of
        None \<Rightarrow> None
      | Some (ts', rest) \<Rightarrow> insertCues cues rest ts')"

text \<open>\<^verbatim>\<open>nBackMatchesPerBlock[blockIndex]\<close>: \<^verbatim>\<open>undefined\<close> beyond the third block.\<close>

definition nBackMatchesPerBlock :: "nat \<Rightarrow> nat option" where
  "nBackMatchesPerBlock blockIndex =
     (if blockIndex < 3 then Some ([23, 20, 25] ! blockIndex) else None)"

record sessionTrials =
  st_pmCues :: "trial list"
  st_trials :: "trial list"

text \<open>
  The cues chosen for a block: the table entry of the block, and the guard for a table
  entry with fewer than six cues.
\<close>

definition cuePool :: "(sessionType \<Rightarrow> pmCuesByBlock) \<Rightarrow> sessionType \<Rightarrow> nat \<Rightarrow> trial list" where
  "cuePool tables sessionType blockIndex =
     (if blockIndex = 0 then block1 (tables sessionType)
      else if blockIndex = 1 then block2 (tables sessionType)
      else block3 (tables sessionType))"

definition selectCues :: "(sessionType \<Rightarrow> pmCuesByBlock) \<Rightarrow> sessionType \<Rightarrow> nat \<Rightarrow> trial list" where
  "selectCues tables sessionType blockIndex =
     (let pmCuesForCurrentBlock = cuePool tables sessionType blockIndex in
      if length pmCuesForCurrentBlock < 6 then
        (if length pmCuesForCurrentBlock = 0 then block1 (tables sessionType)
         else pmCuesForCurrentBlock)
      else pmCuesForCurrentBlock)"

text \<open>
  The callback of \<^verbatim>\<open>imageArray.map((src, index) => ...)\<close>, which builds a regular
  (non-cue) trial; its id is made of the category, the position and the block.
\<close>

definition regularImage :: "sessionType \<Rightarrow> nat \<Rightarrow> nat \<Rightarrow> string \<Rightarrow> trial" where
  "regularImage sessionType blockIndex index imageSrc =
     \<lparr>trial_id = categoryName sessionType @ ''-'' @ showNat index @ ''-'' @ showNat blockIndex,
      trial_type = sessionType, isPMCue = False, src = imageSrc\<rparr>"

text \<open>
  \<^verbatim>\<open>prepareSessionTrials(sessionType, blockIndex, isPractice)\<close>. The source reads the
  cue tables from three constants of the file; here they are an argument, and
  \<open>prepareSessionTrials\<close> below is the function at the tables of the source. With \<^verbatim>\<open>nBackMatches\<close> \<^verbatim>\<open>undefined\<close> the number
  of unique images is \<^verbatim>\<open>NaN\<close>, \<^verbatim>\<open>slice(0, NaN)\<close> is empty and the loop condition is false.
\<close>

definition prepareSessionTrialsWith ::
  "(sessionType \<Rightarrow> pmCuesByBlock) \<Rightarrow> sessionType \<Rightarrow> nat \<Rightarrow> bool \<Rightarrow> randomness
     \<Rightarrow> (error + sessionTrials) option" where
  "prepareSessionTrialsWith tables sessionType blockIndex isPractice rnd =
     (let imageArray = take 70 (shuffled (imageShuffle rnd) (imagesOf sessionType));
          pmCues = selectCues tables sessionType blockIndex;
          regularImages = map (\<lambda>(index, src). regularImage sessionType blockIndex index src)
            (enumerate 0 imageArray)
      in if isPractice then
           (let practiceImages = take 15 (shuffled (practiceShuffle rnd) regularImages) in
            case insertRepeats practiceImages 5 (repeatDraws rnd) practiceImages {} 0 of
              None \<Rightarrow> None
            | Some (Inl e) \<Rightarrow> Some (Inl e)
            | Some (Inr ts) \<Rightarrow> Some (Inr \<lparr>st_pmCues = pmCues, st_trials = ts\<rparr>))
         else
           (case (case nBackMatchesPerBlock blockIndex of
                    None \<Rightarrow> Some (Inr [])
                  | Some nBackMatches \<Rightarrow>
                      (let uniqueImagesNeeded = 70 - 6 - nBackMatches;
                           uniqueImages = take uniqueImagesNeeded regularImages
                       in insertRepeats regularImages nBackMatches (repeatDraws rnd) uniqueImages {} 0)) of
              None \<Rightarrow> None
            | Some (Inl e) \<Rightarrow> Some (Inl e)
            | Some (Inr uniqueImages) \<Rightarrow>
                (let shuffledPMCues = shuffled (cueShuffle rnd) pmCues in
                 case insertCues shuffledPMCues (cueDraws rnd) uniqueImages of
                   None \<Rightarrow> None
                 | Some ts \<Rightarrow> Some (Inr \<lparr>st_pmCues = pmCues, st_trials = ts\<rparr>))))"

definition prepareSessionTrials ::
  "sessionType \<Rightarrow> nat \<Rightarrow> bool \<Rightarrow> randomness \<Rightarrow> (error + sessionTrials) option" where
  "prepareSessionTrials = prepareSessionTrialsWith generatePMCuesByBlock"

text \<open>
  The quantities the generator logs as its verification: the cue trials, and the
  positions \<open>i \<ge> 1\<close> whose trial has the id of its predecessor.
\<close>

definition cueCount :: "trial list \<Rightarrow> nat" where
  "cueCount ts = length (filter isPMCue ts)"

definition repeatCount :: "trial list \<Rightarrow> nat" where
  "repeatCount ts = length (filter (\<lambda>index. index > 0 \<and> trial_id (ts ! index) = trial_id (ts ! (index - 1)))
                              [0..<length ts])"

section \<open>Final results\<close>

text \<open>
  \<^verbatim>\<open>calculateFinalResults\<close> sums the block results of every session, in the order of
  \<^verbatim>\<open>Object.entries\<close> (pleasant, unpleasant, neutral), and leaves both accuracies at the
  placeholder.
\<close>

definition addBlock :: "blockResult \<Rightarrow> blockResult \<Rightarrow> blockResult" where
  "addBlock block acc =
     \<lparr>nBackCorrect = nBackCorrect acc + nBackCorrect block,
      nBackMissed = nBackMissed acc + nBackMissed block,
      nBackFalseAlarms = nBackFalseAlarms acc + nBackFalseAlarms block,
      pmCueCorrect = pmCueCorrect acc + pmCueCorrect block,
      pmCueMissed = pmCueMissed acc + pmCueMissed block,
      pmCueFalseAlarms = pmCueFalseAlarms acc + pmCueFalseAlarms block,
      totalImages = totalImages acc + totalImages block,
      totalPMCues = totalPMCues acc + totalPMCues block,
      totalNBackMatches = totalNBackMatches acc + totalNBackMatches block\<rparr>"

definition zeroBlock :: blockResult where
  "zeroBlock = \<lparr>nBackCorrect = 0, nBackMissed = 0, nBackFalseAlarms = 0, pmCueCorrect = 0,
                 pmCueMissed = 0, pmCueFalseAlarms = 0, totalImages = 0, totalPMCues = 0,
                 totalNBackMatches = 0\<rparr>"

definition calculateFinalResults :: "(sessionType \<Rightarrow> blockResult list) \<Rightarrow> finalResults" where
  "calculateFinalResults currentSessionData =
     (let total = fold addBlock
            (currentSessionData Pleasant @ currentSessionData Unpleasant @ currentSessionData Neutral)
            zeroBlock
      in \<lparr>nBackCorrect = nBackCorrect total, nBackMissed = nBackMissed total,
           nBackFalseAlarms = nBackFalseAlarms total, pmCueCorrect = pmCueCorrect total,
           pmCueMissed = pmCueMissed total, pmCueFalseAlarms = pmCueFalseAlarms total,
           totalImages = totalImages total, totalPMCues = totalPMCues total,
           totalNBackMatches = totalNBackMatches total,
           nBackAccuracy = ''0.00'', pmCueAccuracy = ''0.00'',
           resultSessionResults = currentSessionData\<rparr>)"

text \<open>
  The code that follows \<^verbatim>\<open>calculateFinalResults\<close> at both places that end the
  experiment (the last block's space bar in \<^verbatim>\<open>handleKeyPress\<close>, and
  \<^verbatim>\<open>endSessionAndShowResults\<close>); the two copies are the same statement for statement.
\<close>

definition withAccuracies :: "finalResults \<Rightarrow> finalResults" where
  "withAccuracies r0 =
     (let r1 = (if totalNBackMatches r0 = 0 \<and> nBackCorrect r0 + nBackMissed r0 > 0
                then r0\<lparr>totalNBackMatches := nBackCorrect r0 + nBackMissed r0\<rparr> else r0);
          r2 = (if totalPMCues r1 = 0 \<and> pmCueCorrect r1 + pmCueMissed r1 > 0
                then r1\<lparr>totalPMCues := pmCueCorrect r1 + pmCueMissed r1\<rparr> else r1);
          r3 = r2\<lparr>nBackAccuracy :=
                  (if totalNBackMatches r2 > 0
                   then accuracyPercent (nBackCorrect r2) (totalNBackMatches r2)
                   else ''0.00'')\<rparr>
      in r3\<lparr>pmCueAccuracy :=
              (if totalPMCues r3 > 0
               then accuracyPercent (pmCueCorrect r3) (totalPMCues r3)
               else ''0.00'')\<rparr>)"

text \<open>
  The accuracy as the specification words it: correct out of correct plus missed, as a
  percentage rounded to two decimals, and \<open>0.00\<close> when nothing could be detected. It is
  computed in the integers: \<open>specHundredths\<close> is the percentage in hundredths, rounded
  to the nearest integer (a half is rounded up), and \<open>showHundredths\<close> writes a number of
  hundredths with its two decimals.
\<close>

definition specHundredths :: "nat \<Rightarrow> nat \<Rightarrow> nat" where
  "specHundredths correct missed =
     (20000 * correct + (correct + missed)) div (2 * (correct + missed))"




section \<open>The presentation loop and the key handler\<close>

text \<open>The initial values of the hooks.\<close>

definition initialResults :: finalResults where
  "initialResults =
     \<lparr>nBackCorrect = 0, nBackMissed = 0, nBackFalseAlarms = 0, pmCueCorrect = 0,
      pmCueMissed = 0, pmCueFalseAlarms = 0, totalImages = 0, totalPMCues = 0,
      totalNBackMatches = 0, nBackAccuracy = ''0.00'', pmCueAccuracy = ''0.00'',
      resultSessionResults = (\<lambda>s. [])\<rparr>"

definition initialState :: state where
  "initialState =
     \<lparr>currentSession = Pleasant, currentBlock = 0, currentPhase = PmCue, pmCues = [],
      trials = [], currentPMCueIndex = 0, currentTrialIndex = - 1, showFixation = False,
      waitingForSpacebar = False, waitingForSpacebarAfterPMCues = False,
      responses = Map.empty, sessionResults = (\<lambda>s. []), results = initialResults,
      isExperimentActive = True, isPaused = False, initialized = False, isLoading = True,
      isDebugMode = False\<rparr>"

text \<open>
  \<^verbatim>\<open>initializeBlock\<close> first shows the loading state; \<^verbatim>\<open>finishInitialization\<close> installs
  the block the generator returned; when the generator throws, only the loading state is
  taken back.
\<close>

definition initializeBlock :: "state \<Rightarrow> state" where
  "initializeBlock st = st\<lparr>isLoading := True\<rparr>"

definition finishInitialization :: "trial list \<Rightarrow> trial list \<Rightarrow> state \<Rightarrow> state" where
  "finishInitialization blockPMCues blockTrials st =
     st\<lparr>pmCues := blockPMCues, trials := blockTrials, currentPMCueIndex := 0,
        currentTrialIndex := - 1, currentPhase := PmCue, responses := Map.empty,
        waitingForSpacebarAfterPMCues := False, initialized := True, isLoading := False\<rparr>"

definition initializationFailed :: "state \<Rightarrow> state" where
  "initializationFailed st = st\<lparr>isLoading := False\<rparr>"

definition togglePause :: "state \<Rightarrow> state" where
  "togglePause st = st\<lparr>isPaused := \<not> isPaused st\<rparr>"

text \<open>
  The debug controls. One button shows or hides them; while they are shown there are
  three session buttons and three block buttons, whose \<^verbatim>\<open>onClick\<close> handlers put the
  component back to the start of a block: the session buttons also select the first
  block, the block buttons keep the session.
\<close>

definition toggleDebugMode :: "state \<Rightarrow> state" where
  "toggleDebugMode st = st\<lparr>isDebugMode := \<not> isDebugMode st\<rparr>"

definition debugSessionButton :: "sessionType \<Rightarrow> state \<Rightarrow> state" where
  "debugSessionButton session st =
     st\<lparr>currentSession := session, currentBlock := 0, currentPhase := PmCue,
        currentPMCueIndex := 0, currentTrialIndex := - 1, responses := Map.empty,
        initialized := False\<rparr>"

definition debugBlockButton :: "nat \<Rightarrow> state \<Rightarrow> state" where
  "debugBlockButton block st =
     st\<lparr>currentBlock := block, currentPhase := PmCue, currentPMCueIndex := 0,
        currentTrialIndex := - 1, responses := Map.empty, initialized := False\<rparr>"

text \<open>
  The callback both timers run to leave a trial: the 500 ms timer the key handler arms
  after a response, and the 1500 ms fixation timer of the progression effect. The index
  moves on by a functional update; the entry that is deleted is computed from the
  \<^verbatim>\<open>currentTrialIndex\<close> the closure captured when the timer was armed.
\<close>

definition advanceTrial :: "int \<Rightarrow> state \<Rightarrow> state" where
  "advanceTrial captured st =
     st\<lparr>showFixation := False, currentTrialIndex := currentTrialIndex st + 1,
        responses := (responses st)(captured + 1 := None)\<rparr>"

text \<open>
  What a call of the key handler leaves for later: the call of \<^verbatim>\<open>onComplete\<close>, and the
  500 ms timer with the trial index it captured.
\<close>

datatype action = OnComplete finalResults | SetTimeout500 int

text \<open>
  \<^verbatim>\<open>setResponses(prev => ...)\<close> in the key handler: the key is appended to the entry of
  the current trial unless the entry has it already.
\<close>

definition recordResponse :: "int \<Rightarrow> string \<Rightarrow> responseMap \<Rightarrow> responseMap" where
  "recordResponse index key prev =
     (let trialResponses = trialResponsesAt prev index in
      if key \<notin> set trialResponses then prev(index \<mapsto> trialResponses @ [key]) else prev)"

text \<open>
  \<^verbatim>\<open>handleKeyPress\<close>. At the end of the last block \<^verbatim>\<open>calculateFinalResults\<close> is given
  the \<^verbatim>\<open>sessionResults\<close> of the current render, which the update queued just before has
  not reached yet.
\<close>

definition handleKeyPress :: "state \<Rightarrow> string \<Rightarrow> state \<times> action list" where
  "handleKeyPress st eKey =
     (if isPaused st \<or> isLoading st then (st, [])
      else
        (let key = toLowerCase eKey in
         if waitingForSpacebarAfterPMCues st \<and> key = '' '' then
           (st\<lparr>waitingForSpacebarAfterPMCues := False, showFixation := True,
               currentPhase := PmCueTransitionToTrial\<rparr>, [])
         else if waitingForSpacebar st \<and> key = '' '' then
           (let (blockResults, st0) = evaluateBlockPerformance st;
                st1 = st0\<lparr>waitingForSpacebar := False,
                         sessionResults := (sessionResults st0)
                           (currentSession st0 := sessionResults st0 (currentSession st0) @ [blockResults]),
                         responses := Map.empty\<rparr>
            in if currentBlock st < 2 then (st1\<lparr>currentBlock := currentBlock st1 + 1\<rparr>, [])
               else if currentSession st = Pleasant
                 then (st1\<lparr>currentSession := Unpleasant, currentBlock := 0\<rparr>, [])
               else if currentSession st = Unpleasant
                 then (st1\<lparr>currentSession := Neutral, currentBlock := 0\<rparr>, [])
               else
                 (let accuratelyCalculatedResults =
                        withAccuracies (calculateFinalResults (sessionResults st))
                  in (st1\<lparr>results := accuratelyCalculatedResults, isExperimentActive := False\<rparr>,
                      [OnComplete accuratelyCalculatedResults])))
         else if currentPhase st = Trial \<and> showFixation st \<and> isExperimentActive st then
           (if key = ''n'' \<or> key = ''z'' then
              (st\<lparr>responses := recordResponse (currentTrialIndex st) key (responses st)\<rparr>,
               [SetTimeout500 (currentTrialIndex st)])
            else (st, []))
         else (st, [])))"

text \<open>
  The progression effect. One run of the effect either does nothing, or updates the
  state at once, or arms one timer; the cleanup of the effect clears that timer as soon
  as a dependency changes, so a timer that fires does so in the state that armed it.
\<close>

datatype timer = PmCueTimer | TransitionFixationTimer | ImageTimer | TrialFixationTimer int

datatype progression = Idle | SetState state | Schedule timer nat

definition trialProgression :: "state \<Rightarrow> progression" where
  "trialProgression st =
     (if \<not> initialized st \<or> \<not> isExperimentActive st \<or> isPaused st \<or> waitingForSpacebar st
         \<or> isLoading st \<or> waitingForSpacebarAfterPMCues st then Idle
      else if currentPhase st = PmCue then
        (if currentPMCueIndex st < length (pmCues st) then Schedule PmCueTimer 2000
         else SetState (st\<lparr>waitingForSpacebarAfterPMCues := True\<rparr>))
      else if currentPhase st = PmCueTransitionToTrial then Schedule TransitionFixationTimer 1000
      else if currentPhase st = Trial then
        (if currentTrialIndex st \<ge> int (length (trials st))
         then SetState (st\<lparr>currentPhase := BlockEnd, waitingForSpacebar := True\<rparr>)
         else if \<not> showFixation st
           then Schedule ImageTimer (if isPMCueAt (trials st) (currentTrialIndex st) then 2000 else 1500)
         else Schedule (TrialFixationTimer (currentTrialIndex st)) 1500)
      else Idle)"

definition timerFired :: "timer \<Rightarrow> state \<Rightarrow> state" where
  "timerFired t st =
     (case t of
        PmCueTimer \<Rightarrow> st\<lparr>currentPMCueIndex := currentPMCueIndex st + 1\<rparr>
      | TransitionFixationTimer \<Rightarrow>
          st\<lparr>showFixation := False, currentPhase := Trial, currentTrialIndex := 0\<rparr>
      | ImageTimer \<Rightarrow> st\<lparr>showFixation := True\<rparr>
      | TrialFixationTimer captured \<Rightarrow> advanceTrial captured st)"

text \<open>
  \<^verbatim>\<open>endSessionAndShowResults\<close>, the handler of the End Session button: the block in
  progress is scored and appended, then the totals and accuracies are computed from the
  updated data.
\<close>

definition endSessionAndShowResults :: "state \<Rightarrow> state \<times> action list" where
  "endSessionAndShowResults st =
     (let (updatedSessionResultsData, st1) =
            (if currentPhase st = Trial \<and> currentTrialIndex st \<ge> 0 then
               (let (currentBlockPerformance, st0) = evaluateBlockPerformance st;
                    updated = (sessionResults st0)
                      (currentSession st0 := sessionResults st0 (currentSession st0) @ [currentBlockPerformance])
                in (updated, st0\<lparr>sessionResults := updated\<rparr>))
             else (sessionResults st, st));
          completeResults = withAccuracies (calculateFinalResults updatedSessionResultsData)
      in (st1\<lparr>results := completeResults, isExperimentActive := False\<rparr>,
          [OnComplete completeResults]))"

text \<open>
  The states the component can be in. Every event may happen at any time: the key
  handler and the handlers of the buttons, a run of the progression effect, the firing of
  the timer the effect armed, and the firing of a 500 ms response timer, whose captured
  index can be any index at which a response was given earlier. A block is installed with
  any lists of cues and trials, which covers whatever the generator returns. The buttons of the debug controls can
  be clicked while the controls are shown; the block buttons are those of the blocks 0, 1
  and 2.
\<close>

inductive reachable :: "state \<Rightarrow> bool" where
  reach_initial: "reachable initialState"
| reach_initializeBlock: "reachable st \<Longrightarrow> reachable (initializeBlock st)"
| reach_finishInitialization: "reachable st \<Longrightarrow> reachable (finishInitialization cues ts st)"
| reach_initializationFailed: "reachable st \<Longrightarrow> reachable (initializationFailed st)"
| reach_keyPress: "reachable st \<Longrightarrow> reachable (fst (handleKeyPress st eKey))"
| reach_effect: "reachable st \<Longrightarrow> trialProgression st = SetState st' \<Longrightarrow> reachable st'"
| reach_timer: "reachable st \<Longrightarrow> trialProgression st = Schedule t d \<Longrightarrow> reachable (timerFired t st)"
| reach_responseTimer: "reachable st \<Longrightarrow> reachable (advanceTrial captured st)"
| reach_togglePause: "reachable st \<Longrightarrow> reachable (togglePause st)"
| reach_endSession: "reachable st \<Longrightarrow> reachable (fst (endSessionAndShowResults st))"
| reach_toggleDebugMode: "reachable st \<Longrightarrow> reachable (toggleDebugMode st)"
| reach_debugSession: "reachable st \<Longrightarrow> isDebugMode st \<Longrightarrow> reachable (debugSessionButton session st)"
| reach_debugBlock: "reachable st \<Longrightarrow> isDebugMode st \<Longrightarrow> block < 3
    \<Longrightarrow> reachable (debugBlockButton block st)"

section \<open>Concrete blocks used as examples\<close>

definition plainTrial :: "string \<Rightarrow> trial" where
  "plainTrial name = \<lparr>trial_id = name, trial_type = Pleasant, isPMCue = False, src = name @ ''.jpg''\<rparr>"

definition cueTrial :: "string \<Rightarrow> trial" where
  "cueTrial name = \<lparr>trial_id = name, trial_type = Pleasant, isPMCue = True, src = name @ ''.jpg''\<rparr>"

text \<open>
  The end-to-end scenario of the specification: a block of ten trials with repeats at
  positions 3 and 7 and a cue at position 5, the repeat key pressed at position 3 only and
  the cue key at position 5, waiting for the space bar at the end of the block.
\<close>

definition scenarioState :: state where
  "scenarioState = initialState
     \<lparr>trials := [plainTrial ''a'', plainTrial ''b'', plainTrial ''c'', plainTrial ''c'',
                 plainTrial ''d'', cueTrial ''q'', plainTrial ''e'', plainTrial ''e'',
                 plainTrial ''f'', plainTrial ''g''],
      currentPhase := BlockEnd, currentTrialIndex := 10, waitingForSpacebar := True,
      initialized := True, isLoading := False,
      responses := [3 \<mapsto> [''n''], 5 \<mapsto> [''z'']]\<rparr>"

text \<open>
  The block of \<open>scenarioState\<close> in a store: the trial array in cell 0, the response
  object in cell 1, and the key arrays of the two responses in the cells 2 and 3.
\<close>

definition scenarioHeap :: heap where
  "scenarioHeap =
     \<lparr>cells = [0 \<mapsto> TrialArray (trials scenarioState), 1 \<mapsto> ResponseObject [3 \<mapsto> 2, 5 \<mapsto> 3],
               2 \<mapsto> KeyArray [''n''], 3 \<mapsto> KeyArray [''z'']],
      nextAddr = 4\<rparr>"

text \<open>
  What holds of the response map in every reachable state: no entry lies beyond the
  current trial, the map is empty while the cues of a block are shown, and the wait for
  the space bar after the cues belongs to the cue phase.
\<close>

definition responseInvariant :: "state \<Rightarrow> bool" where
  "responseInvariant st =
     ((\<forall>k. currentTrialIndex st < k \<longrightarrow> responses st k = None)
      \<and> (currentPhase st = PmCue \<or> currentPhase st = PmCueTransitionToTrial
            \<longrightarrow> responses st = Map.empty)
      \<and> (waitingForSpacebarAfterPMCues st \<longrightarrow> currentPhase st = PmCue))"

text \<open>
  A short block (a repeat at position 1, a cue at position 2) followed from the start
  of the component: the block is installed, its one cue is shown, the space bar starts
  the trials, and the first trial shows its image (\<open>demoImageState\<close>), then its
  fixation cross (\<open>demoFixationState\<close>), during which the key \<open>N\<close> is pressed
  (\<open>demoRespondedState\<close>).
\<close>

definition demoInstalled :: state where
  "demoInstalled = finishInitialization [cueTrial ''q'']
     [plainTrial ''a'', plainTrial ''a'', cueTrial ''q''] initialState"

definition demoCueShown :: state where
  "demoCueShown = timerFired PmCueTimer demoInstalled"

definition demoWaiting :: state where
  "demoWaiting = demoCueShown\<lparr>waitingForSpacebarAfterPMCues := True\<rparr>"

definition demoTransition :: state where
  "demoTransition = fst (handleKeyPress demoWaiting '' '')"

definition demoImageState :: state where
  "demoImageState = timerFired TransitionFixationTimer demoTransition"

definition demoFixationState :: state where
  "demoFixationState = timerFired ImageTimer demoImageState"

definition demoRespondedState :: state where
  "demoRespondedState = fst (handleKeyPress demoFixationState ''N'')"

text \<open>
  The state after the debug controls are opened in \<open>demoRespondedState\<close> and the
  button of the second block is clicked.
\<close>

definition demoDebugState :: state where
  "demoDebugState = debugBlockButton 1 (toggleDebugMode demoRespondedState)"

text \<open>The final results when the session is ended while the first image is showing.\<close>

definition demoEndResults :: finalResults where
  "demoEndResults = results (fst (endSessionAndShowResults demoImageState))"







text \<open>Every block result the state holds is a result of the scorer.\<close>

definition blocksScored :: "state \<Rightarrow> bool" where
  "blocksScored st =
     (\<forall>s. \<forall>b\<in>set (sessionResults st s). \<exists>st'. b = fst (evaluateBlockPerformance st'))"

text \<open>No two neighbours of a trial list are both cue trials.\<close>

definition cuesApart :: "trial list \<Rightarrow> bool" where
  "cuesApart ts =
     (\<forall>i. i + 1 < length ts \<longrightarrow> \<not> (isPMCue (ts ! i) \<and> isPMCue (ts ! (i + 1))))"

text \<open>
  What a call of the generator returned, for a call that did return.
\<close>

definition returned :: "(error + sessionTrials) option \<Rightarrow> sessionTrials" where
  "returned r = (case r of Some (Inr res) \<Rightarrow> res | _ \<Rightarrow> \<lparr>st_pmCues = [], st_trials = []\<rparr>)"

text \<open>
  A run of the generator for the first block of the pleasant session. The sorts leave
  their arrays as they are. Every draw is a multiple of \<open>1 / 1024\<close>, a value
  \<^verbatim>\<open>Math.random()\<close> can return and whose products with the list lengths are exact in
  double arithmetic. The repeat loop draws the positions 1, 3, 5, ... and so repeats the
  first 23 images, each right after itself. The first cue is drawn to position 1,
  between the first image and its repeat; the other five cues are drawn to the positions
  50, 52, 54, 56 and 58.
\<close>

definition splitRun :: randomness where
  "splitRun =
     \<lparr>imageShuffle = [], practiceShuffle = [],
      repeatDraws = [8 / 1024, 51 / 1024, 99 / 1024, 144 / 1024, 188 / 1024, 229 / 1024,
                     269 / 1024, 307 / 1024, 343 / 1024, 378 / 1024, 411 / 1024, 443 / 1024,
                     474 / 1024, 504 / 1024, 532 / 1024, 560 / 1024, 587 / 1024, 612 / 1024,
                     637 / 1024, 661 / 1024, 684 / 1024, 707 / 1024, 728 / 1024],
      cueShuffle = [],
      cueDraws = [18 / 1024, 778 / 1024, 797 / 1024, 816 / 1024, 834 / 1024, 851 / 1024]\<rparr>"

definition splitRunResult :: sessionTrials where
  "splitRunResult = returned (prepareSessionTrials Pleasant 0 False splitRun)"



text \<open>A list with every element repeated right after itself.\<close>

fun doubled :: "'a list \<Rightarrow> 'a list" where
  "doubled [] = []"
| "doubled (x # xs) = x # x # doubled xs"


section \<open>Properties of the scorer\<close>

lemma fold_scoreTrial_state:
  "snd (fold scoreTrial idxs (t, st)) = st"
  by (induction idxs arbitrary: t) (simp_all add: scoreTrial_def)

lemma evaluateBlockPerformance_state: "snd (evaluateBlockPerformance st) = st"
proof -
  obtain t st' where f: "fold scoreTrial [0..<length (trials st)] (zeroTally, st) = (t, st')"
    by (cases "fold scoreTrial [0..<length (trials st)] (zeroTally, st)")
  have "st' = st"
    using fold_scoreTrial_state [of "[0..<length (trials st)]" zeroTally st] f by simp
  then show ?thesis
    by (simp add: evaluateBlockPerformance_def Let_def f)
qed

lemma card_upt_filter: "card {i. i < n \<and> P i} = length (filter P [0..<n])"
proof -
  have "set (filter P [0..<n]) = {i. i < n \<and> P i}" by auto
  moreover have "distinct (filter P [0..<n])" by simp
  ultimately show ?thesis by (metis distinct_card)
qed

lemma card_upt_filter_pos:
  "card {i. 1 \<le> i \<and> i < n \<and> P i} = length (filter (\<lambda>i. 0 < i \<and> P i) [0..<n])"
proof -
  have "{i. 1 \<le> i \<and> i < n \<and> P i} = {i. i < n \<and> (0 < i \<and> P i)}"
    by auto
  then show ?thesis
    by (simp only: card_upt_filter)
qed

lemma fold_scoreTrial_nBackCorrect:
  "nBackCorrect (fst (fold scoreTrial idxs (t, st))) = nBackCorrect t +
     length (filter (\<lambda>i. 0 < i \<and> trial_id (trials st ! i) = trial_id (trials st ! (i - 1))
        \<and> ''n'' \<in> set (trialResponsesAt (responses st) (int i))) idxs)"
  by (induction idxs arbitrary: t) (simp_all add: scoreTrial_def scoreNBack_def scorePMCue_def Let_def)

lemma fold_scoreTrial_nBackMissed:
  "nBackMissed (fst (fold scoreTrial idxs (t, st))) = nBackMissed t +
     length (filter (\<lambda>i. 0 < i \<and> trial_id (trials st ! i) = trial_id (trials st ! (i - 1))
        \<and> ''n'' \<notin> set (trialResponsesAt (responses st) (int i))) idxs)"
  by (induction idxs arbitrary: t) (simp_all add: scoreTrial_def scoreNBack_def scorePMCue_def Let_def)

lemma fold_scoreTrial_nBackFalseAlarms:
  "nBackFalseAlarms (fst (fold scoreTrial idxs (t, st))) = nBackFalseAlarms t +
     length (filter (\<lambda>i. 0 < i \<and> trial_id (trials st ! i) \<noteq> trial_id (trials st ! (i - 1))
        \<and> ''n'' \<in> set (trialResponsesAt (responses st) (int i))) idxs)"
  by (induction idxs arbitrary: t) (simp_all add: scoreTrial_def scoreNBack_def scorePMCue_def Let_def)

lemma fold_scoreTrial_pmCueCorrect:
  "pmCueCorrect (fst (fold scoreTrial idxs (t, st))) = pmCueCorrect t +
     length (filter (\<lambda>i. isPMCue (trials st ! i)
        \<and> ''z'' \<in> set (trialResponsesAt (responses st) (int i))) idxs)"
  by (induction idxs arbitrary: t) (simp_all add: scoreTrial_def scoreNBack_def scorePMCue_def Let_def)

lemma fold_scoreTrial_pmCueMissed:
  "pmCueMissed (fst (fold scoreTrial idxs (t, st))) = pmCueMissed t +
     length (filter (\<lambda>i. isPMCue (trials st ! i)
        \<and> ''z'' \<notin> set (trialResponsesAt (responses st) (int i))) idxs)"
  by (induction idxs arbitrary: t) (simp_all add: scoreTrial_def scoreNBack_def scorePMCue_def Let_def)

lemma fold_scoreTrial_pmCueFalseAlarms:
  "pmCueFalseAlarms (fst (fold scoreTrial idxs (t, st))) = pmCueFalseAlarms t +
     length (filter (\<lambda>i. \<not> isPMCue (trials st ! i)
        \<and> ''z'' \<in> set (trialResponsesAt (responses st) (int i))) idxs)"
  by (induction idxs arbitrary: t) (simp_all add: scoreTrial_def scoreNBack_def scorePMCue_def Let_def)

lemma evaluateBlockPerformance_fields:
  "nBackCorrect (fst (evaluateBlockPerformance st)) =
     nBackCorrect (fst (fold scoreTrial [0..<length (trials st)] (zeroTally, st)))"
  "nBackMissed (fst (evaluateBlockPerformance st)) =
     nBackMissed (fst (fold scoreTrial [0..<length (trials st)] (zeroTally, st)))"
  "nBackFalseAlarms (fst (evaluateBlockPerformance st)) =
     nBackFalseAlarms (fst (fold scoreTrial [0..<length (trials st)] (zeroTally, st)))"
  "pmCueCorrect (fst (evaluateBlockPerformance st)) =
     pmCueCorrect (fst (fold scoreTrial [0..<length (trials st)] (zeroTally, st)))"
  "pmCueMissed (fst (evaluateBlockPerformance st)) =
     pmCueMissed (fst (fold scoreTrial [0..<length (trials st)] (zeroTally, st)))"
  "pmCueFalseAlarms (fst (evaluateBlockPerformance st)) =
     pmCueFalseAlarms (fst (fold scoreTrial [0..<length (trials st)] (zeroTally, st)))"
  by (simp_all add: evaluateBlockPerformance_def Let_def split: prod.splits)

text \<open>The counters of a block, each as the number of positions of one kind.\<close>

lemma scorer_counts:
  "nBackCorrect (fst (evaluateBlockPerformance st)) =
     length (filter (\<lambda>i. 0 < i \<and> trial_id (trials st ! i) = trial_id (trials st ! (i - 1))
        \<and> ''n'' \<in> set (trialResponsesAt (responses st) (int i))) [0..<length (trials st)])"
  "nBackMissed (fst (evaluateBlockPerformance st)) =
     length (filter (\<lambda>i. 0 < i \<and> trial_id (trials st ! i) = trial_id (trials st ! (i - 1))
        \<and> ''n'' \<notin> set (trialResponsesAt (responses st) (int i))) [0..<length (trials st)])"
  "nBackFalseAlarms (fst (evaluateBlockPerformance st)) =
     length (filter (\<lambda>i. 0 < i \<and> trial_id (trials st ! i) \<noteq> trial_id (trials st ! (i - 1))
        \<and> ''n'' \<in> set (trialResponsesAt (responses st) (int i))) [0..<length (trials st)])"
  "pmCueCorrect (fst (evaluateBlockPerformance st)) =
     length (filter (\<lambda>i. isPMCue (trials st ! i)
        \<and> ''z'' \<in> set (trialResponsesAt (responses st) (int i))) [0..<length (trials st)])"
  "pmCueMissed (fst (evaluateBlockPerformance st)) =
     length (filter (\<lambda>i. isPMCue (trials st ! i)
        \<and> ''z'' \<notin> set (trialResponsesAt (responses st) (int i))) [0..<length (trials st)])"
  "pmCueFalseAlarms (fst (evaluateBlockPerformance st)) =
     length (filter (\<lambda>i. \<not> isPMCue (trials st ! i)
        \<and> ''z'' \<in> set (trialResponsesAt (responses st) (int i))) [0..<length (trials st)])"
  by (simp_all add: evaluateBlockPerformance_fields fold_scoreTrial_nBackCorrect
      fold_scoreTrial_nBackMissed fold_scoreTrial_nBackFalseAlarms fold_scoreTrial_pmCueCorrect
      fold_scoreTrial_pmCueMissed fold_scoreTrial_pmCueFalseAlarms zeroTally_def)

lemma scenario_block:
  "fst (evaluateBlockPerformance scenarioState) =
     \<lparr>nBackCorrect = 1, nBackMissed = 1, nBackFalseAlarms = 0, pmCueCorrect = 1,
      pmCueMissed = 0, pmCueFalseAlarms = 0, totalImages = 9, totalPMCues = 1,
      totalNBackMatches = 2\<rparr>"
  by code_simp

text \<open>
  Claim C1. For every trial list and response map the scorer classifies the positions
  \<open>i \<ge> 1\<close> by the one-back rule. A position is a repeat match exactly when its trial has
  the id of the trial before it (the test \<open>isOneBackMatch\<close> makes). \<open>nBackCorrect\<close> is the
  number of matches for which the key \<open>n\<close> was recorded, \<open>nBackMissed\<close> the number of
  matches for which it was not, \<open>nBackFalseAlarms\<close> the number of positions that are no
  match although \<open>n\<close> was recorded. Position 0 is in none of the three sets.
\<close>

theorem scorer_one_back_rule:
  "nBackCorrect (fst (evaluateBlockPerformance st)) =
     card {i. 1 \<le> i \<and> i < length (trials st)
            \<and> trial_id (trials st ! i) = trial_id (trials st ! (i - 1))
            \<and> ''n'' \<in> set (trialResponsesAt (responses st) (int i))}
   \<and> nBackMissed (fst (evaluateBlockPerformance st)) =
     card {i. 1 \<le> i \<and> i < length (trials st)
            \<and> trial_id (trials st ! i) = trial_id (trials st ! (i - 1))
            \<and> ''n'' \<notin> set (trialResponsesAt (responses st) (int i))}
   \<and> nBackFalseAlarms (fst (evaluateBlockPerformance st)) =
     card {i. 1 \<le> i \<and> i < length (trials st)
            \<and> trial_id (trials st ! i) \<noteq> trial_id (trials st ! (i - 1))
            \<and> ''n'' \<in> set (trialResponsesAt (responses st) (int i))}
   \<and> isOneBackMatch (trials st) (int i) =
       (1 \<le> i \<and> i < length (trials st)
         \<and> trial_id (trials st ! i) = trial_id (trials st ! (i - 1)))"
proof -
  have m: "isOneBackMatch (trials st) (int i) =
       (1 \<le> i \<and> i < length (trials st)
         \<and> trial_id (trials st ! i) = trial_id (trials st ! (i - 1)))"
    by (auto simp add: isOneBackMatch_def nat_diff_distrib')
  show ?thesis
    by (simp only: card_upt_filter_pos scorer_counts m)
qed

theorem scorer_one_back_rule_witness:
  "nBackCorrect (fst (evaluateBlockPerformance scenarioState)) = 1
   \<and> card {i. 1 \<le> i \<and> i < length (trials scenarioState)
            \<and> trial_id (trials scenarioState ! i) = trial_id (trials scenarioState ! (i - 1))
            \<and> ''n'' \<in> set (trialResponsesAt (responses scenarioState) (int i))} = 1
   \<and> nBackMissed (fst (evaluateBlockPerformance scenarioState)) = 1
   \<and> nBackFalseAlarms (fst (evaluateBlockPerformance scenarioState)) = 0"
  using scorer_one_back_rule [of scenarioState 0]
  by (simp add: scenario_block)

text \<open>
  Claim C3. For every trial list and response map: \<open>pmCueCorrect\<close> is the number of cue
  trials for which the key \<open>z\<close> was recorded, \<open>pmCueMissed\<close> the number of cue trials for
  which it was not, and \<open>pmCueFalseAlarms\<close> the number of trials that are no cue although
  \<open>z\<close> was recorded. Every trial is counted by at most one of the three counters: their
  sum is the number of trials that are a cue or have a \<open>z\<close>.
\<close>

theorem scorer_pm_cue_rule:
  "pmCueCorrect (fst (evaluateBlockPerformance st)) =
     card {i. i < length (trials st) \<and> isPMCue (trials st ! i)
            \<and> ''z'' \<in> set (trialResponsesAt (responses st) (int i))}
   \<and> pmCueMissed (fst (evaluateBlockPerformance st)) =
     card {i. i < length (trials st) \<and> isPMCue (trials st ! i)
            \<and> ''z'' \<notin> set (trialResponsesAt (responses st) (int i))}
   \<and> pmCueFalseAlarms (fst (evaluateBlockPerformance st)) =
     card {i. i < length (trials st) \<and> \<not> isPMCue (trials st ! i)
            \<and> ''z'' \<in> set (trialResponsesAt (responses st) (int i))}
   \<and> pmCueCorrect (fst (evaluateBlockPerformance st))
       + pmCueMissed (fst (evaluateBlockPerformance st))
       + pmCueFalseAlarms (fst (evaluateBlockPerformance st)) =
     card {i. i < length (trials st) \<and> (isPMCue (trials st ! i)
            \<or> ''z'' \<in> set (trialResponsesAt (responses st) (int i)))}"
proof -
  have split3: "length (filter (\<lambda>i. c i \<and> z i) xs) + length (filter (\<lambda>i. c i \<and> \<not> z i) xs)
        + length (filter (\<lambda>i. \<not> c i \<and> z i) xs) = length (filter (\<lambda>i. c i \<or> z i) xs)"
    for c z :: "nat \<Rightarrow> bool" and xs
    by (induction xs) auto
  show ?thesis
    by (simp only: card_upt_filter scorer_counts split3)
qed

theorem scorer_pm_cue_rule_witness:
  "pmCueCorrect (fst (evaluateBlockPerformance scenarioState)) = 1
   \<and> card {i. i < length (trials scenarioState) \<and> isPMCue (trials scenarioState ! i)
            \<and> ''z'' \<in> set (trialResponsesAt (responses scenarioState) (int i))} = 1
   \<and> pmCueMissed (fst (evaluateBlockPerformance scenarioState)) = 0
   \<and> pmCueFalseAlarms (fst (evaluateBlockPerformance scenarioState)) = 0"
  using scorer_pm_cue_rule [of scenarioState]
  by (simp add: scenario_block)

text \<open>The scorer over the store: cells that exist are kept, and the result is that of the scorer.\<close>

lemma extends_refl: "allocated h \<Longrightarrow> extends h h"
  by (simp add: extends_def)

lemma alloc_extends:
  assumes "extends h h'"
  shows "extends h (snd (alloc obj h'))"
proof -
  have fresh: "cells h' (nextAddr h') = None"
    using assms by (force simp add: extends_def allocated_def)
  have old: "a \<noteq> nextAddr h'" if "a \<in> dom (cells h)" for a
  proof
    assume "a = nextAddr h'"
    moreover from that assms have "cells h' a = cells h a" by (simp add: extends_def)
    ultimately show False using that fresh by auto
  qed
  have "allocated (snd (alloc obj h'))"
    using assms by (auto simp add: extends_def allocated_def alloc_def less_Suc_eq)
  moreover have "\<forall>a\<in>dom (cells h). cells (snd (alloc obj h')) a = cells h a"
    using assms old by (simp add: extends_def alloc_def)
  ultimately show ?thesis by (simp add: extends_def)
qed

lemma extends_reads:
  assumes "extends h h'" and "a \<in> dom (cells h)"
  shows "trialsAt h' a = trialsAt h a" "keysAt h' a = keysAt h a"
    "propertyAt h' a i = propertyAt h a i"
  using assms by (simp_all add: extends_def trialsAt_def keysAt_def propertyAt_def)

lemma alloc_fresh_keys:
  "allocated h \<Longrightarrow> keysAt (snd (alloc (KeyArray ks) h)) (fst (alloc (KeyArray ks) h)) = ks"
  by (simp add: alloc_def keysAt_def)

lemma alloc_fresh_trials:
  "trialsAt (snd (alloc (TrialArray ts) h)) (fst (alloc (TrialArray ts) h)) = ts"
  by (simp add: alloc_def trialsAt_def)

lemma trialResponsesRef_spec:
  assumes w: "wellFormed h trialsRef responsesRef" and e: "extends h h'"
  shows "extends h (snd (trialResponsesRef responsesRef i h'))"
    and "keysAt (snd (trialResponsesRef responsesRef i h')) (fst (trialResponsesRef responsesRef i h'))
         = trialResponsesAt (responsesView h responsesRef) i"
proof -
  have r: "responsesRef \<in> dom (cells h)" using w by (simp add: wellFormed_def)
  have p: "propertyAt h' responsesRef i = propertyAt h responsesRef i"
    by (rule extends_reads(3) [OF e r])
  show "extends h (snd (trialResponsesRef responsesRef i h'))"
    using e alloc_extends [OF e] by (simp add: trialResponsesRef_def split: option.splits)
  show "keysAt (snd (trialResponsesRef responsesRef i h')) (fst (trialResponsesRef responsesRef i h'))
         = trialResponsesAt (responsesView h responsesRef) i"
  proof (cases "propertyAt h responsesRef i")
    case None
    then show ?thesis
      using p by (simp add: trialResponsesRef_def responsesView_def trialResponsesAt_def
          alloc_def keysAt_def)
  next
    case (Some a)
    then have "a \<in> dom (cells h)" using w by (simp add: wellFormed_def)
    then have "keysAt h' a = keysAt h a" by (rule extends_reads(2) [OF e])
    then show ?thesis
      using p Some by (simp add: trialResponsesRef_def responsesView_def trialResponsesAt_def)
  qed
qed

lemma scoreTrialOnHeap_spec:
  assumes w: "wellFormed h trialsRef responsesRef" and e: "extends h h'"
    and st: "trials st = trialsAt h trialsRef" "responses st = responsesView h responsesRef"
  shows "extends h (snd (scoreTrialOnHeap trialsRef responsesRef index (t, h')))"
    and "fst (scoreTrialOnHeap trialsRef responsesRef index (t, h'))
         = fst (scoreTrial index (t, st))"
proof -
  obtain a h1 where r: "trialResponsesRef responsesRef (int index) h' = (a, h1)"
    by (cases "trialResponsesRef responsesRef (int index) h'")
  have e1: "extends h h1"
    using trialResponsesRef_spec(1) [OF w e, of "int index"] r by simp
  have k: "keysAt h1 a = trialResponsesAt (responses st) (int index)"
    using trialResponsesRef_spec(2) [OF w e, of "int index"] r st(2) by simp
  have tr: "trialsAt h1 trialsRef = trials st"
    using extends_reads(1) [OF e1] w st(1) by (simp add: wellFormed_def)
  show "extends h (snd (scoreTrialOnHeap trialsRef responsesRef index (t, h')))"
    by (simp add: scoreTrialOnHeap_def r e1 Let_def)
  show "fst (scoreTrialOnHeap trialsRef responsesRef index (t, h'))
         = fst (scoreTrial index (t, st))"
    by (simp add: scoreTrialOnHeap_def r k tr scoreTrial_def scoreNBack_def scorePMCue_def Let_def)
qed

lemma fold_scoreTrialOnHeap_spec:
  assumes w: "wellFormed h trialsRef responsesRef"
    and st: "trials st = trialsAt h trialsRef" "responses st = responsesView h responsesRef"
  shows "extends h h' \<Longrightarrow>
     extends h (snd (fold (scoreTrialOnHeap trialsRef responsesRef) idxs (t, h')))
     \<and> fst (fold (scoreTrialOnHeap trialsRef responsesRef) idxs (t, h'))
         = fst (fold scoreTrial idxs (t, st))"
proof (induction idxs arbitrary: t h')
  case Nil
  then show ?case by simp
next
  case (Cons i idxs)
  obtain t1 h1 where s: "scoreTrialOnHeap trialsRef responsesRef i (t, h') = (t1, h1)"
    by (cases "scoreTrialOnHeap trialsRef responsesRef i (t, h')")
  have e1: "extends h h1"
    using scoreTrialOnHeap_spec(1) [OF w Cons.prems st, of i t] s by simp
  have t1: "scoreTrial i (t, st) = (t1, st)"
    using scoreTrialOnHeap_spec(2) [OF w Cons.prems st, of i t] s
    by (simp add: scoreTrial_def)
  show ?case
    using Cons.IH [OF e1, of t1] by (simp add: s t1)
qed


lemma extends_wellFormed:
  assumes w: "wellFormed h trialsRef responsesRef" and e: "extends h h'"
  shows "wellFormed h' trialsRef responsesRef"
    and "trialsAt h' trialsRef = trialsAt h trialsRef"
    and "responsesView h' responsesRef = responsesView h responsesRef"
proof -
  have t: "trialsRef \<in> dom (cells h)" and r: "responsesRef \<in> dom (cells h)"
    and c: "\<And>i a. propertyAt h responsesRef i = Some a \<Longrightarrow> a \<in> dom (cells h)"
    using w by (simp_all add: wellFormed_def)
  have keep: "a \<in> dom (cells h')" if "a \<in> dom (cells h)" for a
  proof -
    from that e have "cells h' a = cells h a" by (simp add: extends_def)
    with that show ?thesis by (simp add: domIff)
  qed
  have p: "propertyAt h' responsesRef i = propertyAt h responsesRef i" for i
    by (rule extends_reads(3) [OF e r])
  show "wellFormed h' trialsRef responsesRef"
    using e keep [OF t] keep [OF r] c keep by (simp add: wellFormed_def extends_def p)
  show "trialsAt h' trialsRef = trialsAt h trialsRef"
    by (rule extends_reads(1) [OF e t])
  show "responsesView h' responsesRef = responsesView h responsesRef"
  proof
    fix i
    show "responsesView h' responsesRef i = responsesView h responsesRef i"
    proof (cases "propertyAt h responsesRef i")
      case None
      then show ?thesis by (simp add: responsesView_def p)
    next
      case (Some a)
      then have "keysAt h' a = keysAt h a"
        using extends_reads(2) [OF e c] by simp
      then show ?thesis using Some by (simp add: responsesView_def p)
    qed
  qed
qed

lemma extends_trans_alloc:
  "extends h h' \<Longrightarrow> alloc obj h' = (a, h1) \<Longrightarrow> extends h h1"
  using alloc_extends [of h h' obj] by simp

lemma evaluateBlockPerformanceOnHeap_spec:
  assumes w: "wellFormed h trialsRef responsesRef"
    and st: "trials st = trialsAt h trialsRef" "responses st = responsesView h responsesRef"
  shows "extends h (snd (evaluateBlockPerformanceOnHeap trialsRef responsesRef h))"
    and "fst (evaluateBlockPerformanceOnHeap trialsRef responsesRef h)
         = fst (evaluateBlockPerformance st)"
proof -
  have e0: "extends h h" using w by (simp add: wellFormed_def extends_refl)
  have tin: "trialsRef \<in> dom (cells h)" using w by (simp add: wellFormed_def)
  obtain a1 h1 where a1: "alloc (TrialArray (filter (\<lambda>t. \<not> isPMCue t) (trials st))) h = (a1, h1)"
    by (cases "alloc (TrialArray (filter (\<lambda>t. \<not> isPMCue t) (trials st))) h")
  have e1: "extends h h1" by (rule extends_trans_alloc [OF e0 a1])
  have t1: "trialsAt h1 trialsRef = trials st" using extends_reads(1) [OF e1 tin] st(1) by simp
  have n1: "length (trialsAt h1 a1) = length (filter (\<lambda>t. \<not> isPMCue t) (trials st))"
    using alloc_fresh_trials [of "filter (\<lambda>t. \<not> isPMCue t) (trials st)" h] a1 by simp
  obtain a2 h2 where a2: "alloc (TrialArray (filter isPMCue (trials st))) h1 = (a2, h2)"
    by (cases "alloc (TrialArray (filter isPMCue (trials st))) h1")
  have e2: "extends h h2" by (rule extends_trans_alloc [OF e1 a2])
  have t2: "trialsAt h2 trialsRef = trials st" using extends_reads(1) [OF e2 tin] st(1) by simp
  have n2: "length (trialsAt h2 a2) = length (filter isPMCue (trials st))"
    using alloc_fresh_trials [of "filter isPMCue (trials st)" h1] a2 by simp
  let ?m = "map (\<lambda>index. trials st ! index)
             (filter (\<lambda>index. index > 0 \<and> trial_id (trials st ! index) = trial_id (trials st ! (index - 1)))
                [0..<length (trials st)])"
  obtain a3 h3 where a3: "alloc (TrialArray ?m) h2 = (a3, h3)"
    by (cases "alloc (TrialArray ?m) h2")
  have e3: "extends h h3" by (rule extends_trans_alloc [OF e2 a3])
  have t3: "trialsAt h3 trialsRef = trials st" using extends_reads(1) [OF e3 tin] st(1) by simp
  have n3: "length (trialsAt h3 a3) = length (filter (\<lambda>index. index > 0
                \<and> trial_id (trials st ! index) = trial_id (trials st ! (index - 1))) [0..<length (trials st)])"
    using alloc_fresh_trials [of ?m h2] a3 by simp
  obtain t h4 where f: "fold (scoreTrialOnHeap trialsRef responsesRef) [0..<length (trials st)] (zeroTally, h3) = (t, h4)"
    by (cases "fold (scoreTrialOnHeap trialsRef responsesRef) [0..<length (trials st)] (zeroTally, h3)")
  have e4: "extends h h4" and tt: "t = fst (fold scoreTrial [0..<length (trials st)] (zeroTally, st))"
    using fold_scoreTrialOnHeap_spec [OF w st e3, of "[0..<length (trials st)]" zeroTally] f by simp_all
  let ?r = "\<lparr>nBackCorrect = nBackCorrect t, nBackMissed = nBackMissed t,
            nBackFalseAlarms = nBackFalseAlarms t, pmCueCorrect = pmCueCorrect t,
            pmCueMissed = pmCueMissed t, pmCueFalseAlarms = pmCueFalseAlarms t,
            totalImages = length (trialsAt h1 a1), totalPMCues = length (trialsAt h2 a2),
            totalNBackMatches = length (trialsAt h3 a3)\<rparr>"
  obtain a5 h5 where a5: "alloc (BlockResultObject ?r) h4 = (a5, h5)"
    by (cases "alloc (BlockResultObject ?r) h4")
  have e5: "extends h h5" by (rule extends_trans_alloc [OF e4 a5])
  have res: "evaluateBlockPerformanceOnHeap trialsRef responsesRef h = (?r, h5)"
    unfolding evaluateBlockPerformanceOnHeap_def
    by (simp add: Let_def st(1) [symmetric] a1 t1 a2 t2 a3 [simplified] t3 f a5)
  show "extends h (snd (evaluateBlockPerformanceOnHeap trialsRef responsesRef h))"
    by (simp add: res e5)
  show "fst (evaluateBlockPerformanceOnHeap trialsRef responsesRef h)
         = fst (evaluateBlockPerformance st)"
    by (simp add: res n1 n2 n3 tt evaluateBlockPerformance_def Let_def split: prod.splits)
qed

lemma scenarioHeap_wellFormed: "wellFormed scenarioHeap 0 1"
  by (auto simp add: wellFormed_def allocated_def scenarioHeap_def propertyAt_def split: if_splits)

lemma scenarioHeap_views:
  "trials scenarioState = trialsAt scenarioHeap 0"
  "responses scenarioState = responsesView scenarioHeap 1"
  by (auto simp add: scenarioHeap_def trialsAt_def responsesView_def propertyAt_def keysAt_def
      scenarioState_def)

lemma scenarioHeap_next:
  "nextAddr (snd (evaluateBlockPerformanceOnHeap 0 1 scenarioHeap)) = 16"
  by code_simp

text \<open>
  Claim C10. Scoring a block is read-only. In a well-formed store, whatever the trial
  array and the response object hold: every cell that exists when the scorer is called,
  the trial array, the response object and every array of keys among them, has the same
  content when it returns (the scorer only adds cells); so the trial list and the
  response map that the references stand for are unchanged; the tallies are those of
  \<open>evaluateBlockPerformance\<close> for this trial list and response map; and scoring again,
  in the store the first call left behind, gives the same tallies.
\<close>

theorem scoring_is_read_only:
  assumes "wellFormed h trialsRef responsesRef"
    and "trials st = trialsAt h trialsRef" and "responses st = responsesView h responsesRef"
  shows "(\<forall>a\<in>dom (cells h). cells (snd (evaluateBlockPerformanceOnHeap trialsRef responsesRef h)) a = cells h a)
     \<and> trialsAt (snd (evaluateBlockPerformanceOnHeap trialsRef responsesRef h)) trialsRef = trials st
     \<and> responsesView (snd (evaluateBlockPerformanceOnHeap trialsRef responsesRef h)) responsesRef = responses st
     \<and> fst (evaluateBlockPerformanceOnHeap trialsRef responsesRef
              (snd (evaluateBlockPerformanceOnHeap trialsRef responsesRef h)))
         = fst (evaluateBlockPerformanceOnHeap trialsRef responsesRef h)
     \<and> fst (evaluateBlockPerformanceOnHeap trialsRef responsesRef h) = fst (evaluateBlockPerformance st)"
proof -
  let ?h = "snd (evaluateBlockPerformanceOnHeap trialsRef responsesRef h)"
  note s = evaluateBlockPerformanceOnHeap_spec [OF assms]
  note k = extends_wellFormed [OF assms(1) s(1)]
  have a: "\<forall>a\<in>dom (cells h). cells ?h a = cells h a"
    using s(1) by (simp add: extends_def)
  have b: "trialsAt ?h trialsRef = trials st" by (simp only: k(2) assms(2))
  have c: "responsesView ?h responsesRef = responses st" by (simp only: k(3) assms(3))
  have d: "fst (evaluateBlockPerformanceOnHeap trialsRef responsesRef ?h)
         = fst (evaluateBlockPerformanceOnHeap trialsRef responsesRef h)"
    using evaluateBlockPerformanceOnHeap_spec(2) [OF k(1) b [symmetric] c [symmetric]] s(2) by simp
  from a b c d s(2) show ?thesis by (intro conjI)
qed


theorem scoring_is_read_only_witness:
  "wellFormed scenarioHeap 0 1
   \<and> trials scenarioState = trialsAt scenarioHeap 0
   \<and> responses scenarioState = responsesView scenarioHeap 1
   \<and> cells (snd (evaluateBlockPerformanceOnHeap 0 1 scenarioHeap)) 0 = cells scenarioHeap 0
   \<and> cells (snd (evaluateBlockPerformanceOnHeap 0 1 scenarioHeap)) 2 = Some (KeyArray [''n''])
   \<and> nextAddr scenarioHeap = 4
   \<and> nextAddr (snd (evaluateBlockPerformanceOnHeap 0 1 scenarioHeap)) = 16
   \<and> nBackCorrect (fst (evaluateBlockPerformanceOnHeap 0 1 scenarioHeap)) = 1
   \<and> nBackMissed (fst (evaluateBlockPerformanceOnHeap 0 1 scenarioHeap)) = 1
   \<and> fst (evaluateBlockPerformanceOnHeap 0 1 (snd (evaluateBlockPerformanceOnHeap 0 1 scenarioHeap)))
       = fst (evaluateBlockPerformanceOnHeap 0 1 scenarioHeap)"
proof -
  note t = scoring_is_read_only [OF scenarioHeap_wellFormed scenarioHeap_views]
  have d: "0 \<in> dom (cells scenarioHeap)" "2 \<in> dom (cells scenarioHeap)"
    by (simp_all add: scenarioHeap_def)
  have a: "cells (snd (evaluateBlockPerformanceOnHeap 0 1 scenarioHeap)) 0 = cells scenarioHeap 0"
    using t [THEN conjunct1] d(1) by blast
  have "cells (snd (evaluateBlockPerformanceOnHeap 0 1 scenarioHeap)) 2 = cells scenarioHeap 2"
    using t [THEN conjunct1] d(2) by blast
  then have b: "cells (snd (evaluateBlockPerformanceOnHeap 0 1 scenarioHeap)) 2 = Some (KeyArray [''n''])"
    by (simp add: scenarioHeap_def)
  have n: "nextAddr scenarioHeap = 4" by (simp add: scenarioHeap_def)
  have r: "fst (evaluateBlockPerformanceOnHeap 0 1 scenarioHeap) = fst (evaluateBlockPerformance scenarioState)"
    by (rule t [THEN conjunct2, THEN conjunct2, THEN conjunct2, THEN conjunct2])
  have c: "nBackCorrect (fst (evaluateBlockPerformanceOnHeap 0 1 scenarioHeap)) = 1"
    "nBackMissed (fst (evaluateBlockPerformanceOnHeap 0 1 scenarioHeap)) = 1"
    unfolding r scenario_block by simp_all
  show ?thesis
    by (intro conjI scenarioHeap_wellFormed scenarioHeap_views a b n scenarioHeap_next c
        t [THEN conjunct2, THEN conjunct2, THEN conjunct2, THEN conjunct1])
qed

section \<open>Properties of the presentation loop\<close>

lemma evaluateBlockPerformance_pair:
  "evaluateBlockPerformance st = (fst (evaluateBlockPerformance st), st)"
  by (metis prod.collapse evaluateBlockPerformance_state)

lemma handleKeyPress_invariant:
  "responseInvariant st \<Longrightarrow> responseInvariant (fst (handleKeyPress st eKey))"
  unfolding handleKeyPress_def
  apply (subst evaluateBlockPerformance_pair)
  apply (auto simp add: responseInvariant_def Let_def recordResponse_def)
  done

lemma trialProgression_SetState_invariant:
  "responseInvariant st \<Longrightarrow> trialProgression st = SetState st' \<Longrightarrow> responseInvariant st'"
  by (auto simp add: trialProgression_def responseInvariant_def split: if_splits)

lemma advanceTrial_invariant:
  "responseInvariant st \<Longrightarrow> responseInvariant (advanceTrial c st)"
  by (auto simp add: responseInvariant_def advanceTrial_def)

lemma timerFired_invariant:
  "responseInvariant st \<Longrightarrow> trialProgression st = Schedule t d
     \<Longrightarrow> responseInvariant (timerFired t st)"
  by (auto simp add: trialProgression_def responseInvariant_def timerFired_def advanceTrial_def
      split: if_splits)

lemma endSession_invariant:
  "responseInvariant st \<Longrightarrow> responseInvariant (fst (endSessionAndShowResults st))"
  unfolding endSessionAndShowResults_def
  apply (subst evaluateBlockPerformance_pair)
  apply (auto simp add: responseInvariant_def Let_def)
  done

lemma reachable_invariant: "reachable st \<Longrightarrow> responseInvariant st"
proof (induction rule: reachable.induct)
  case reach_initial
  then show ?case by (simp add: responseInvariant_def initialState_def)
next
  case (reach_initializeBlock st)
  then show ?case by (simp add: responseInvariant_def initializeBlock_def)
next
  case (reach_finishInitialization st cues ts)
  then show ?case by (simp add: responseInvariant_def finishInitialization_def)
next
  case (reach_initializationFailed st)
  then show ?case by (simp add: responseInvariant_def initializationFailed_def)
next
  case (reach_keyPress st eKey)
  then show ?case by (simp add: handleKeyPress_invariant)
next
  case (reach_effect st st')
  then show ?case by (simp add: trialProgression_SetState_invariant)
next
  case (reach_timer st t d)
  then show ?case using timerFired_invariant by blast
next
  case (reach_responseTimer st captured)
  then show ?case by (simp add: advanceTrial_invariant)
next
  case (reach_togglePause st)
  then show ?case by (simp add: responseInvariant_def togglePause_def)
next
  case (reach_endSession st)
  then show ?case by (simp add: endSession_invariant)
next
  case (reach_toggleDebugMode st)
  then show ?case by (simp add: responseInvariant_def toggleDebugMode_def)
next
  case (reach_debugSession st session)
  then show ?case by (simp add: responseInvariant_def debugSessionButton_def)
next
  case (reach_debugBlock st block)
  then show ?case by (simp add: responseInvariant_def debugBlockButton_def)
qed

lemma reachable_no_future_response:
  "reachable st \<Longrightarrow> currentTrialIndex st < k \<Longrightarrow> responses st k = None"
  using reachable_invariant [of st] by (simp add: responseInvariant_def)

lemma toLowerCase_space: "toLowerCase '' '' = '' ''"
  by code_simp

lemma toLowerCase_N: "toLowerCase ''N'' = ''n''"
  by code_simp

lemma toLowerCase_n: "toLowerCase ''n'' = ''n''"
  by code_simp

lemmas demo_defs = demoInstalled_def demoCueShown_def demoWaiting_def demoTransition_def
  demoImageState_def demoFixationState_def demoRespondedState_def
  finishInitialization_def initialState_def timerFired_def handleKeyPress_def
  toLowerCase_space toLowerCase_N toLowerCase_n cueTrial_def plainTrial_def

lemma demoInstalled_reachable: "reachable demoInstalled"
  unfolding demoInstalled_def by (rule reach_finishInitialization [OF reach_initial])

lemma demoCueShown_reachable: "reachable demoCueShown"
  unfolding demoCueShown_def
  by (rule reach_timer [OF demoInstalled_reachable, where d = 2000])
     (simp add: trialProgression_def demo_defs)

lemma demoWaiting_reachable: "reachable demoWaiting"
  by (rule reach_effect [OF demoCueShown_reachable])
     (simp add: trialProgression_def demo_defs)

lemma demoTransition_reachable: "reachable demoTransition"
  unfolding demoTransition_def by (rule reach_keyPress [OF demoWaiting_reachable])

lemma demoImageState_reachable: "reachable demoImageState"
  unfolding demoImageState_def
  by (rule reach_timer [OF demoTransition_reachable, where d = 1000])
     (simp add: trialProgression_def demo_defs)

lemma demoFixationState_reachable: "reachable demoFixationState"
  unfolding demoFixationState_def
  by (rule reach_timer [OF demoImageState_reachable, where d = 1500])
     (simp add: trialProgression_def demo_defs isPMCueAt_def)

lemma demoRespondedState_reachable: "reachable demoRespondedState"
  unfolding demoRespondedState_def by (rule reach_keyPress [OF demoFixationState_reachable])

lemma demoImageState_fields:
  "currentPhase demoImageState = Trial" "\<not> showFixation demoImageState"
  "\<not> isPaused demoImageState" "\<not> isLoading demoImageState" "isExperimentActive demoImageState"
  "currentTrialIndex demoImageState = 0" "responses demoImageState = Map.empty"
  "trials demoImageState = [plainTrial ''a'', plainTrial ''a'', cueTrial ''q'']"
  "currentSession demoImageState = Pleasant" "sessionResults demoImageState = (\<lambda>s. [])"
  by (simp_all add: demo_defs)

lemma demoFixationState_fields:
  "currentPhase demoFixationState = Trial" "showFixation demoFixationState"
  "\<not> isPaused demoFixationState" "\<not> isLoading demoFixationState"
  "isExperimentActive demoFixationState"
  "currentTrialIndex demoFixationState = 0" "responses demoFixationState = Map.empty"
  by (simp_all add: demo_defs)

lemma demoRespondedState_fields:
  "currentPhase demoRespondedState = Trial" "showFixation demoRespondedState"
  "currentTrialIndex demoRespondedState = 0" "responses demoRespondedState = [0 \<mapsto> [''n'']]"
  "trials demoRespondedState = [plainTrial ''a'', plainTrial ''a'', cueTrial ''q'']"
  "snd (handleKeyPress demoFixationState ''N'') = [SetTimeout500 0]"
  by (simp_all add: demo_defs recordResponse_def trialResponsesAt_def)

text \<open>
  Claim C6, as amended. A key press is recorded only while the fixation cross of a trial
  is showing: the phase is \<open>Trial\<close>, \<open>showFixation\<close> holds, the experiment is active,
  neither paused nor loading, and the key, in lower case, is \<open>n\<close> or \<open>z\<close>. Then the
  key is appended to the entry of the current trial index unless the entry has it
  already (so a second press of the same key changes nothing), and no other entry
  changes. While the image of a trial is showing nothing is recorded. Every other key press leaves the
  response map as it is, but for the space bar that ends a block, which empties it.
\<close>

theorem key_press_recording:
  "responses (fst (handleKeyPress st eKey)) =
     (if \<not> isPaused st \<and> \<not> isLoading st \<and> currentPhase st = Trial \<and> showFixation st
          \<and> isExperimentActive st \<and> (toLowerCase eKey = ''n'' \<or> toLowerCase eKey = ''z'')
      then recordResponse (currentTrialIndex st) (toLowerCase eKey) (responses st)
      else if \<not> isPaused st \<and> \<not> isLoading st \<and> waitingForSpacebar st
          \<and> \<not> waitingForSpacebarAfterPMCues st \<and> toLowerCase eKey = '' ''
      then Map.empty
      else responses st)
   \<and> trialResponsesAt (recordResponse i key m) i =
       (if key \<in> set (trialResponsesAt m i) then trialResponsesAt m i
        else trialResponsesAt m i @ [key])
   \<and> recordResponse i key (recordResponse i key m) = recordResponse i key m
   \<and> (\<forall>k. k \<noteq> i \<longrightarrow> recordResponse i key m k = m k)"
proof -
  have a: "responses (fst (handleKeyPress st eKey)) =
     (if \<not> isPaused st \<and> \<not> isLoading st \<and> currentPhase st = Trial \<and> showFixation st
          \<and> isExperimentActive st \<and> (toLowerCase eKey = ''n'' \<or> toLowerCase eKey = ''z'')
      then recordResponse (currentTrialIndex st) (toLowerCase eKey) (responses st)
      else if \<not> isPaused st \<and> \<not> isLoading st \<and> waitingForSpacebar st
          \<and> \<not> waitingForSpacebarAfterPMCues st \<and> toLowerCase eKey = '' ''
      then Map.empty
      else responses st)"
    unfolding handleKeyPress_def
    apply (subst evaluateBlockPerformance_pair)
    apply (auto simp add: Let_def)
    done
  have b: "trialResponsesAt (recordResponse i key m) i =
       (if key \<in> set (trialResponsesAt m i) then trialResponsesAt m i
        else trialResponsesAt m i @ [key])"
    by (simp add: recordResponse_def trialResponsesAt_def Let_def)
  have c: "recordResponse i key (recordResponse i key m) = recordResponse i key m"
    by (cases "m i") (auto simp add: recordResponse_def trialResponsesAt_def Let_def)
  have d: "\<forall>k. k \<noteq> i \<longrightarrow> recordResponse i key m k = m k"
    by (simp add: recordResponse_def Let_def)
  from a b c d show ?thesis by (intro conjI)
qed

theorem key_press_recording_witness:
  "responses (fst (handleKeyPress demoFixationState ''N'')) = [0 \<mapsto> [''n'']]
   \<and> responses (fst (handleKeyPress demoImageState ''N'')) = Map.empty
   \<and> trialResponsesAt (recordResponse 0 ''n'' Map.empty) 0 = [''n'']
   \<and> trialResponsesAt (recordResponse 0 ''n'' (recordResponse 0 ''n'' Map.empty)) 0 = [''n'']
   \<and> trialResponsesAt (recordResponse 0 ''z'' (recordResponse 0 ''n'' Map.empty)) 0 = [''n'', ''z'']
   \<and> recordResponse 0 ''n'' Map.empty 1 = None"
  using key_press_recording [of demoFixationState "''N''" 0 "''n''" Map.empty]
    key_press_recording [of demoImageState "''N''" 0 "''n''" Map.empty]
  by (simp add: demoFixationState_fields demoImageState_fields toLowerCase_N recordResponse_def trialResponsesAt_def)

text \<open>
  The claim as it was stated fails in the image state of a trial: the experiment is in
  the trial phase at index 0 and not paused, the key \<open>n\<close> is pressed, and nothing is
  recorded for index 0.
\<close>

theorem key_press_in_image_state_counterexample:
  "currentPhase demoImageState = Trial \<and> \<not> showFixation demoImageState
   \<and> \<not> isPaused demoImageState \<and> currentTrialIndex demoImageState = 0
   \<and> trialResponsesAt (responses (fst (handleKeyPress demoImageState ''n''))) 0 = []"
  by (simp add: demo_defs trialResponsesAt_def)

lemma demoDebugState_reachable: "reachable demoDebugState"
  unfolding demoDebugState_def
  by (rule reach_debugBlock [OF reach_toggleDebugMode [OF demoRespondedState_reachable]])
     (simp_all add: toggleDebugMode_def demo_defs)

lemma demoDebugState_fields:
  "currentTrialIndex demoDebugState = - 1" "responses demoDebugState = Map.empty"
  "currentBlock demoDebugState = 1" "\<not> initialized demoDebugState"
  by (simp_all add: demoDebugState_def debugBlockButton_def)

text \<open>
  Claim C8. In every state the component can reach, by key presses, timers, the buttons
  and the debug controls: a key press changes no entry of the response map
  but that of the current trial index (any other entry is kept or emptied); the 500 ms
  timer armed by a response and the fixation timer of the effect both capture the current
  trial index; and when the callback of either timer runs, whatever index it captured,
  the trial index moves on by one, the entry after the captured index is deleted, and the
  trial that becomes current starts with an empty response set.
\<close>

theorem response_isolation:
  assumes "reachable st"
  shows "(\<forall>eKey k. k \<noteq> currentTrialIndex st \<longrightarrow>
            set (trialResponsesAt (responses (fst (handleKeyPress st eKey))) k)
              \<subseteq> set (trialResponsesAt (responses st) k))
     \<and> (\<forall>eKey c. SetTimeout500 c \<in> set (snd (handleKeyPress st eKey)) \<longrightarrow> c = currentTrialIndex st)
     \<and> (\<forall>c d. trialProgression st = Schedule (TrialFixationTimer c) d \<longrightarrow> c = currentTrialIndex st)
     \<and> (\<forall>c. currentTrialIndex (advanceTrial c st) = currentTrialIndex st + 1
            \<and> responses (advanceTrial c st) (c + 1) = None
            \<and> trialResponsesAt (responses (advanceTrial c st)) (currentTrialIndex (advanceTrial c st)) = [])"
proof -
  have a: "\<forall>eKey k. k \<noteq> currentTrialIndex st \<longrightarrow>
            set (trialResponsesAt (responses (fst (handleKeyPress st eKey))) k)
              \<subseteq> set (trialResponsesAt (responses st) k)"
    unfolding handleKeyPress_def
    apply (subst evaluateBlockPerformance_pair)
    apply (auto simp add: Let_def recordResponse_def trialResponsesAt_def)
    done
  have b: "\<forall>eKey c. SetTimeout500 c \<in> set (snd (handleKeyPress st eKey)) \<longrightarrow> c = currentTrialIndex st"
    unfolding handleKeyPress_def
    apply (subst evaluateBlockPerformance_pair)
    apply (auto simp add: Let_def split: if_splits)
    done
  have c: "\<forall>c d. trialProgression st = Schedule (TrialFixationTimer c) d \<longrightarrow> c = currentTrialIndex st"
    by (auto simp add: trialProgression_def split: if_splits)
  have "responses st (currentTrialIndex st + 1) = None"
    using reachable_no_future_response [OF assms, of "currentTrialIndex st + 1"] by simp
  then have d: "\<forall>c. currentTrialIndex (advanceTrial c st) = currentTrialIndex st + 1
            \<and> responses (advanceTrial c st) (c + 1) = None
            \<and> trialResponsesAt (responses (advanceTrial c st)) (currentTrialIndex (advanceTrial c st)) = []"
    by (simp add: advanceTrial_def trialResponsesAt_def)
  from a b c d show ?thesis by blast
qed

theorem response_isolation_witness:
  "reachable demoRespondedState
   \<and> trialResponsesAt (responses demoRespondedState) (currentTrialIndex demoRespondedState) = [''n'']
   \<and> currentTrialIndex (advanceTrial 0 demoRespondedState) = 1
   \<and> trialResponsesAt (responses (advanceTrial 0 demoRespondedState)) 1 = []
   \<and> trialResponsesAt (responses (advanceTrial 0 demoRespondedState)) 0 = [''n'']
   \<and> reachable demoDebugState
   \<and> currentTrialIndex (advanceTrial 0 demoDebugState) = 0
   \<and> trialResponsesAt (responses (advanceTrial 0 demoDebugState)) 0 = []"
  using response_isolation [OF demoRespondedState_reachable]
    response_isolation [OF demoDebugState_reachable]
  by (simp add: demoRespondedState_reachable demoRespondedState_fields demoDebugState_reachable
      demoDebugState_fields advanceTrial_def trialResponsesAt_def)

lemma endSession_action:
  "snd (endSessionAndShowResults st) = [OnComplete (results (fst (endSessionAndShowResults st)))]"
proof -
  obtain b st0 where e: "evaluateBlockPerformance st = (b, st0)"
    by (cases "evaluateBlockPerformance st")
  show ?thesis
    by (simp add: endSessionAndShowResults_def Let_def e)
qed

lemma endSession_results:
  assumes "currentPhase st = Trial" and "currentTrialIndex st \<ge> 0"
  shows "results (fst (endSessionAndShowResults st)) =
     withAccuracies (calculateFinalResults ((sessionResults st)
       (currentSession st := sessionResults st (currentSession st) @ [fst (evaluateBlockPerformance st)])))"
    and "sessionResults (fst (endSessionAndShowResults st)) = (sessionResults st)
       (currentSession st := sessionResults st (currentSession st) @ [fst (evaluateBlockPerformance st)])"
proof -
  obtain b st0 where e: "evaluateBlockPerformance st = (b, st0)"
    by (cases "evaluateBlockPerformance st")
  have "st0 = st"
    using evaluateBlockPerformance_state [of st] e by simp
  then show "results (fst (endSessionAndShowResults st)) =
     withAccuracies (calculateFinalResults ((sessionResults st)
       (currentSession st := sessionResults st (currentSession st) @ [fst (evaluateBlockPerformance st)])))"
    and "sessionResults (fst (endSessionAndShowResults st)) = (sessionResults st)
       (currentSession st := sessionResults st (currentSession st) @ [fst (evaluateBlockPerformance st)])"
    using assms by (simp_all add: endSessionAndShowResults_def Let_def e)
qed

text \<open>The totals are sums over the stored blocks, so a block that is appended adds its counters.\<close>

lemma fold_addBlock_tally:
  "nBackCorrect (fold addBlock bs acc) = nBackCorrect acc + sum_list (map nBackCorrect bs)"
  "nBackMissed (fold addBlock bs acc) = nBackMissed acc + sum_list (map nBackMissed bs)"
  "nBackFalseAlarms (fold addBlock bs acc) = nBackFalseAlarms acc + sum_list (map nBackFalseAlarms bs)"
  "pmCueCorrect (fold addBlock bs acc) = pmCueCorrect acc + sum_list (map pmCueCorrect bs)"
  "pmCueMissed (fold addBlock bs acc) = pmCueMissed acc + sum_list (map pmCueMissed bs)"
  "pmCueFalseAlarms (fold addBlock bs acc) = pmCueFalseAlarms acc + sum_list (map pmCueFalseAlarms bs)"
  by (induction bs arbitrary: acc; simp add: addBlock_def)+

lemma calculateFinalResults_tally:
  "nBackCorrect (calculateFinalResults sd) = sum_list (map nBackCorrect (sd Pleasant @ sd Unpleasant @ sd Neutral))"
  "nBackMissed (calculateFinalResults sd) = sum_list (map nBackMissed (sd Pleasant @ sd Unpleasant @ sd Neutral))"
  "nBackFalseAlarms (calculateFinalResults sd) = sum_list (map nBackFalseAlarms (sd Pleasant @ sd Unpleasant @ sd Neutral))"
  "pmCueCorrect (calculateFinalResults sd) = sum_list (map pmCueCorrect (sd Pleasant @ sd Unpleasant @ sd Neutral))"
  "pmCueMissed (calculateFinalResults sd) = sum_list (map pmCueMissed (sd Pleasant @ sd Unpleasant @ sd Neutral))"
  "pmCueFalseAlarms (calculateFinalResults sd) = sum_list (map pmCueFalseAlarms (sd Pleasant @ sd Unpleasant @ sd Neutral))"
  "resultSessionResults (calculateFinalResults sd) = sd"
  by (simp_all add: calculateFinalResults_def Let_def fold_addBlock_tally zeroBlock_def)

lemma calculateFinalResults_append:
  "nBackCorrect (calculateFinalResults (sd(s := sd s @ [b]))) = nBackCorrect (calculateFinalResults sd) + nBackCorrect b"
  "nBackMissed (calculateFinalResults (sd(s := sd s @ [b]))) = nBackMissed (calculateFinalResults sd) + nBackMissed b"
  "nBackFalseAlarms (calculateFinalResults (sd(s := sd s @ [b]))) = nBackFalseAlarms (calculateFinalResults sd) + nBackFalseAlarms b"
  "pmCueCorrect (calculateFinalResults (sd(s := sd s @ [b]))) = pmCueCorrect (calculateFinalResults sd) + pmCueCorrect b"
  "pmCueMissed (calculateFinalResults (sd(s := sd s @ [b]))) = pmCueMissed (calculateFinalResults sd) + pmCueMissed b"
  "pmCueFalseAlarms (calculateFinalResults (sd(s := sd s @ [b]))) = pmCueFalseAlarms (calculateFinalResults sd) + pmCueFalseAlarms b"
  by (cases s; simp add: calculateFinalResults_tally)+

lemma withAccuracies_tally:
  "nBackCorrect (withAccuracies r) = nBackCorrect r"
  "nBackMissed (withAccuracies r) = nBackMissed r"
  "nBackFalseAlarms (withAccuracies r) = nBackFalseAlarms r"
  "pmCueCorrect (withAccuracies r) = pmCueCorrect r"
  "pmCueMissed (withAccuracies r) = pmCueMissed r"
  "pmCueFalseAlarms (withAccuracies r) = pmCueFalseAlarms r"
  "resultSessionResults (withAccuracies r) = resultSessionResults r"
  by (simp_all add: withAccuracies_def Let_def)

lemma filter_upt_cong:
  "(\<And>i. i < n \<Longrightarrow> P i = Q i) \<Longrightarrow> filter P [0..<n] = filter Q [0..<n]"
  by (rule filter_cong) auto

lemma demoImage_block:
  "fst (evaluateBlockPerformance demoImageState) =
     \<lparr>nBackCorrect = 0, nBackMissed = 1, nBackFalseAlarms = 0, pmCueCorrect = 0,
      pmCueMissed = 1, pmCueFalseAlarms = 0, totalImages = 2, totalPMCues = 1,
      totalNBackMatches = 1\<rparr>"
  by (simp add: evaluateBlockPerformance_def demoImageState_fields plainTrial_def cueTrial_def
      scoreTrial_def scoreNBack_def scorePMCue_def zeroTally_def trialResponsesAt_def
      upt_rec_numeral Let_def)

lemma demoEndResults_fields:
  "snd (endSessionAndShowResults demoImageState) = [OnComplete demoEndResults]"
  "results (fst (endSessionAndShowResults demoImageState)) = demoEndResults"
  "nBackCorrect demoEndResults = 0" "nBackMissed demoEndResults = 1"
  "pmCueCorrect demoEndResults = 0" "pmCueMissed demoEndResults = 1"
  "resultSessionResults demoEndResults Pleasant = [fst (evaluateBlockPerformance demoImageState)]"
proof -
  have r: "demoEndResults = withAccuracies (calculateFinalResults ((\<lambda>s. [])
       (Pleasant := [fst (evaluateBlockPerformance demoImageState)])))"
    unfolding demoEndResults_def
    using endSession_results(1) [of demoImageState] by (simp add: demoImageState_fields)
  show "snd (endSessionAndShowResults demoImageState) = [OnComplete demoEndResults]"
    unfolding demoEndResults_def by (rule endSession_action)
  show "results (fst (endSessionAndShowResults demoImageState)) = demoEndResults"
    by (simp add: demoEndResults_def)
  show "nBackCorrect demoEndResults = 0" "nBackMissed demoEndResults = 1"
    "pmCueCorrect demoEndResults = 0" "pmCueMissed demoEndResults = 1"
    "resultSessionResults demoEndResults Pleasant = [fst (evaluateBlockPerformance demoImageState)]"
    unfolding r by (simp_all add: withAccuracies_tally calculateFinalResults_tally demoImage_block)
qed

text \<open>
  Claim C5, as amended. When the session is ended in the middle of a block, in any state
  the component can reach, the block in progress is scored over its whole trial list with
  the responses captured so far. The result is appended to the results of the session,
  and the final results, which are stored and passed to \<^verbatim>\<open>onComplete\<close>, are the totals
  of the blocks stored before plus the counters of this block. Of this block the correct
  and the false-alarm counters count visited positions only (positions up to the current
  trial index). Every repeat match and every cue that was visited without its key, or not
  visited at all, counts as missed.
\<close>

theorem end_now_scores_whole_block:
  assumes "reachable st" and "currentPhase st = Trial" and "currentTrialIndex st \<ge> 0"
    and "OnComplete r \<in> set (snd (endSessionAndShowResults st))"
  shows "results (fst (endSessionAndShowResults st)) = r
     \<and> resultSessionResults r = (sessionResults st)
         (currentSession st := sessionResults st (currentSession st) @ [fst (evaluateBlockPerformance st)])
     \<and> sessionResults (fst (endSessionAndShowResults st)) = resultSessionResults r
     \<and> nBackCorrect r = nBackCorrect (calculateFinalResults (sessionResults st)) +
         card {i. 1 \<le> i \<and> i < length (trials st) \<and> int i \<le> currentTrialIndex st
                \<and> trial_id (trials st ! i) = trial_id (trials st ! (i - 1))
                \<and> ''n'' \<in> set (trialResponsesAt (responses st) (int i))}
     \<and> nBackFalseAlarms r = nBackFalseAlarms (calculateFinalResults (sessionResults st)) +
         card {i. 1 \<le> i \<and> i < length (trials st) \<and> int i \<le> currentTrialIndex st
                \<and> trial_id (trials st ! i) \<noteq> trial_id (trials st ! (i - 1))
                \<and> ''n'' \<in> set (trialResponsesAt (responses st) (int i))}
     \<and> nBackMissed r = nBackMissed (calculateFinalResults (sessionResults st)) +
         card {i. 1 \<le> i \<and> i < length (trials st)
                \<and> trial_id (trials st ! i) = trial_id (trials st ! (i - 1))
                \<and> (currentTrialIndex st < int i
                     \<or> ''n'' \<notin> set (trialResponsesAt (responses st) (int i)))}
     \<and> pmCueCorrect r = pmCueCorrect (calculateFinalResults (sessionResults st)) +
         card {i. i < length (trials st) \<and> int i \<le> currentTrialIndex st
                \<and> isPMCue (trials st ! i)
                \<and> ''z'' \<in> set (trialResponsesAt (responses st) (int i))}
     \<and> pmCueFalseAlarms r = pmCueFalseAlarms (calculateFinalResults (sessionResults st)) +
         card {i. i < length (trials st) \<and> int i \<le> currentTrialIndex st
                \<and> \<not> isPMCue (trials st ! i)
                \<and> ''z'' \<in> set (trialResponsesAt (responses st) (int i))}
     \<and> pmCueMissed r = pmCueMissed (calculateFinalResults (sessionResults st)) +
         card {i. i < length (trials st) \<and> isPMCue (trials st ! i)
                \<and> (currentTrialIndex st < int i
                     \<or> ''z'' \<notin> set (trialResponsesAt (responses st) (int i)))}"
proof -
  have unvisited: "trialResponsesAt (responses st) (int i) = []" if "currentTrialIndex st < int i" for i
    using reachable_no_future_response [OF assms(1) that] by (simp add: trialResponsesAt_def)
  have visited: "(int i \<le> currentTrialIndex st \<and> k \<in> set (trialResponsesAt (responses st) (int i)))
       = (k \<in> set (trialResponsesAt (responses st) (int i)))" for i k
    using unvisited [of i] by (cases "currentTrialIndex st < int i") auto
  have missed: "(currentTrialIndex st < int i \<or> k \<notin> set (trialResponsesAt (responses st) (int i)))
       = (k \<notin> set (trialResponsesAt (responses st) (int i)))" for i k
    using unvisited [of i] by (cases "currentTrialIndex st < int i") auto
  have s1: "{i. 1 \<le> i \<and> i < length (trials st) \<and> int i \<le> currentTrialIndex st
                \<and> trial_id (trials st ! i) = trial_id (trials st ! (i - 1))
                \<and> ''n'' \<in> set (trialResponsesAt (responses st) (int i))}
     = {i. 1 \<le> i \<and> i < length (trials st)
                \<and> trial_id (trials st ! i) = trial_id (trials st ! (i - 1))
                \<and> ''n'' \<in> set (trialResponsesAt (responses st) (int i))}"
    using visited by blast
  have s2: "{i. 1 \<le> i \<and> i < length (trials st) \<and> int i \<le> currentTrialIndex st
                \<and> trial_id (trials st ! i) \<noteq> trial_id (trials st ! (i - 1))
                \<and> ''n'' \<in> set (trialResponsesAt (responses st) (int i))}
     = {i. 1 \<le> i \<and> i < length (trials st)
                \<and> trial_id (trials st ! i) \<noteq> trial_id (trials st ! (i - 1))
                \<and> ''n'' \<in> set (trialResponsesAt (responses st) (int i))}"
    using visited by blast
  have s3: "{i. i < length (trials st) \<and> int i \<le> currentTrialIndex st
                \<and> isPMCue (trials st ! i)
                \<and> ''z'' \<in> set (trialResponsesAt (responses st) (int i))}
     = {i. i < length (trials st) \<and> isPMCue (trials st ! i)
                \<and> ''z'' \<in> set (trialResponsesAt (responses st) (int i))}"
    using visited by blast
  have s4: "{i. i < length (trials st) \<and> int i \<le> currentTrialIndex st
                \<and> \<not> isPMCue (trials st ! i)
                \<and> ''z'' \<in> set (trialResponsesAt (responses st) (int i))}
     = {i. i < length (trials st) \<and> \<not> isPMCue (trials st ! i)
                \<and> ''z'' \<in> set (trialResponsesAt (responses st) (int i))}"
    using visited by blast
  let ?sd = "(sessionResults st)
         (currentSession st := sessionResults st (currentSession st) @ [fst (evaluateBlockPerformance st)])"
  from assms(4) have r: "r = results (fst (endSessionAndShowResults st))"
    by (simp add: endSession_action)
  then have w: "r = withAccuracies (calculateFinalResults ?sd)"
    by (simp only: endSession_results(1) [OF assms(2) assms(3)])
  have a: "results (fst (endSessionAndShowResults st)) = r"
    by (simp only: r)
  have b: "resultSessionResults r = ?sd"
    by (simp only: w withAccuracies_tally calculateFinalResults_tally)
  have c: "sessionResults (fst (endSessionAndShowResults st)) = resultSessionResults r"
    by (simp only: b endSession_results(2) [OF assms(2) assms(3)])
  have d: "nBackCorrect r = nBackCorrect (calculateFinalResults (sessionResults st)) +
         card {i. 1 \<le> i \<and> i < length (trials st) \<and> int i \<le> currentTrialIndex st
                \<and> trial_id (trials st ! i) = trial_id (trials st ! (i - 1))
                \<and> ''n'' \<in> set (trialResponsesAt (responses st) (int i))}"
    by (simp only: w withAccuracies_tally calculateFinalResults_append s1
        card_upt_filter_pos scorer_counts)
  have e: "nBackFalseAlarms r = nBackFalseAlarms (calculateFinalResults (sessionResults st)) +
         card {i. 1 \<le> i \<and> i < length (trials st) \<and> int i \<le> currentTrialIndex st
                \<and> trial_id (trials st ! i) \<noteq> trial_id (trials st ! (i - 1))
                \<and> ''n'' \<in> set (trialResponsesAt (responses st) (int i))}"
    by (simp only: w withAccuracies_tally calculateFinalResults_append s2
        card_upt_filter_pos scorer_counts)
  have f: "nBackMissed r = nBackMissed (calculateFinalResults (sessionResults st)) +
         card {i. 1 \<le> i \<and> i < length (trials st)
                \<and> trial_id (trials st ! i) = trial_id (trials st ! (i - 1))
                \<and> (currentTrialIndex st < int i
                     \<or> ''n'' \<notin> set (trialResponsesAt (responses st) (int i)))}"
    by (simp only: w withAccuracies_tally calculateFinalResults_append missed
        card_upt_filter_pos scorer_counts)
  have g: "pmCueCorrect r = pmCueCorrect (calculateFinalResults (sessionResults st)) +
         card {i. i < length (trials st) \<and> int i \<le> currentTrialIndex st
                \<and> isPMCue (trials st ! i)
                \<and> ''z'' \<in> set (trialResponsesAt (responses st) (int i))}"
    by (simp only: w withAccuracies_tally calculateFinalResults_append s3
        card_upt_filter scorer_counts)
  have h: "pmCueFalseAlarms r = pmCueFalseAlarms (calculateFinalResults (sessionResults st)) +
         card {i. i < length (trials st) \<and> int i \<le> currentTrialIndex st
                \<and> \<not> isPMCue (trials st ! i)
                \<and> ''z'' \<in> set (trialResponsesAt (responses st) (int i))}"
    by (simp only: w withAccuracies_tally calculateFinalResults_append s4
        card_upt_filter scorer_counts)
  have i: "pmCueMissed r = pmCueMissed (calculateFinalResults (sessionResults st)) +
         card {i. i < length (trials st) \<and> isPMCue (trials st ! i)
                \<and> (currentTrialIndex st < int i
                     \<or> ''z'' \<notin> set (trialResponsesAt (responses st) (int i)))}"
    by (simp only: w withAccuracies_tally calculateFinalResults_append missed
        card_upt_filter scorer_counts)
  from a b c d e f g h i show ?thesis
    by (intro conjI)
qed

theorem end_now_scores_whole_block_witness:
  "reachable demoImageState \<and> currentPhase demoImageState = Trial
   \<and> (0::int) \<le> currentTrialIndex demoImageState
   \<and> snd (endSessionAndShowResults demoImageState) = [OnComplete demoEndResults]
   \<and> results (fst (endSessionAndShowResults demoImageState)) = demoEndResults
   \<and> sessionResults (fst (endSessionAndShowResults demoImageState)) Pleasant
       = [fst (evaluateBlockPerformance demoImageState)]
   \<and> nBackCorrect demoEndResults = 0 \<and> nBackMissed demoEndResults = 1
   \<and> card {i. 1 \<le> i \<and> i < length (trials demoImageState)
                \<and> trial_id (trials demoImageState ! i) = trial_id (trials demoImageState ! (i - 1))
                \<and> (currentTrialIndex demoImageState < int i
                     \<or> ''n'' \<notin> set (trialResponsesAt (responses demoImageState) (int i)))} = 1"
proof -
  have h: "OnComplete demoEndResults \<in> set (snd (endSessionAndShowResults demoImageState))"
    by (simp add: demoEndResults_fields(1))
  have p: "currentPhase demoImageState = Trial" and x: "(0::int) \<le> currentTrialIndex demoImageState"
    by (simp_all add: demoImageState_fields)
  note t = end_now_scores_whole_block [OF demoImageState_reachable p x h]
  have z: "nBackMissed (calculateFinalResults (sessionResults demoImageState)) = 0"
    by (simp add: calculateFinalResults_tally demoImageState_fields)
  have s: "sessionResults (fst (endSessionAndShowResults demoImageState)) Pleasant
       = [fst (evaluateBlockPerformance demoImageState)]"
    by (simp only: t [THEN conjunct2, THEN conjunct2, THEN conjunct1] demoEndResults_fields(7))
  have c: "card {i. 1 \<le> i \<and> i < length (trials demoImageState)
                \<and> trial_id (trials demoImageState ! i) = trial_id (trials demoImageState ! (i - 1))
                \<and> (currentTrialIndex demoImageState < int i
                     \<or> ''n'' \<notin> set (trialResponsesAt (responses demoImageState) (int i)))} = 1"
    using t z by (simp add: demoEndResults_fields(4))
  show ?thesis
    by (intro conjI demoImageState_reachable p x demoEndResults_fields(1,2,3,4) s c)
qed

text \<open>
  The claim as it was stated fails when the session is ended at the first of three
  trials: the repeat at position 1 and the cue at position 2 were never shown, and both
  are counted as missed in the final results that are passed to \<^verbatim>\<open>onComplete\<close>.
\<close>

theorem end_now_counts_unvisited_counterexample:
  "reachable demoImageState
   \<and> currentPhase demoImageState = Trial \<and> currentTrialIndex demoImageState = 0
   \<and> length (trials demoImageState) = 3
   \<and> snd (endSessionAndShowResults demoImageState) = [OnComplete demoEndResults]
   \<and> nBackMissed demoEndResults = 1
   \<and> pmCueMissed demoEndResults = 1"
  by (simp add: demoImageState_reachable demoImageState_fields demoEndResults_fields)

section \<open>Properties of the final results\<close>

lemma floor_rat_divide_numeral:
  "\<lfloor>(numeral a :: rat) / numeral b\<rfloor> = numeral a div numeral b"
  by (metis floor_divide_of_int_eq of_int_numeral)

























text \<open>The rounded percentage of the specification is the hundredth nearest to the percentage.\<close>

lemma specHundredths_nearest:
  assumes "0 < correct + missed"
  shows "\<bar>of_nat (specHundredths correct missed) / 100
           - 100 * of_nat correct / (of_nat (correct + missed) :: rat)\<bar> \<le> 1 / 200"
proof -
  define t where "t = correct + missed"
  define H where "H = (20000 * correct + t) div (2 * t)"
  define r where "r = (20000 * correct + t) mod (2 * t)"
  have "0 < t" using assms by (simp only: t_def)
  then have tr: "(0::rat) < of_nat t" by (simp only: of_nat_0_less_iff)
  have "20000 * correct + t = 2 * t * H + r" by (simp add: H_def r_def)
  then have "of_nat (20000 * correct + t) = (of_nat (2 * t * H + r) :: rat)" by (simp only:)
  then have e: "20000 * of_nat correct + of_nat t = 2 * of_nat t * of_nat H + (of_nat r :: rat)"
    by simp
  have "r < 2 * t" using assms by (simp add: r_def t_def)
  then have "(of_nat r :: rat) < of_nat (2 * t)" by (simp only: of_nat_less_iff)
  then have rb: "(of_nat r :: rat) < 2 * of_nat t" "(0::rat) \<le> of_nat r" by simp_all
  have h: "(of_nat H :: rat) = (20000 * of_nat correct + of_nat t - of_nat r) / (2 * of_nat t)"
    using tr e by (simp add: field_simps)
  have "of_nat H / 100 - 100 * of_nat correct / (of_nat t :: rat)
      = (of_nat t - of_nat r) / (200 * of_nat t)"
    unfolding h using tr by (simp add: field_simps)
  moreover have "\<bar>(of_nat t - of_nat r) / (200 * of_nat t :: rat)\<bar> \<le> 1 / 200"
    using tr rb by (simp add: abs_le_iff field_simps)
  ultimately show ?thesis
    by (simp add: specHundredths_def H_def t_def)
qed






















text \<open>In every reachable state the stored block results are results of the scorer.\<close>

lemma handleKeyPress_blocksScored:
  "blocksScored st \<Longrightarrow> blocksScored (fst (handleKeyPress st eKey))"
  unfolding handleKeyPress_def
  apply (subst evaluateBlockPerformance_pair)
  apply (auto simp add: blocksScored_def Let_def)
  done

lemma endSession_blocksScored:
  "blocksScored st \<Longrightarrow> blocksScored (fst (endSessionAndShowResults st))"
  unfolding endSessionAndShowResults_def
  apply (subst evaluateBlockPerformance_pair)
  apply (auto simp add: blocksScored_def Let_def)
  done

lemma reachable_blocksScored: "reachable st \<Longrightarrow> blocksScored st"
proof (induction rule: reachable.induct)
  case reach_initial
  then show ?case by (simp add: blocksScored_def initialState_def)
next
  case (reach_initializeBlock st)
  then show ?case by (simp add: blocksScored_def initializeBlock_def)
next
  case (reach_finishInitialization st cues ts)
  then show ?case by (simp add: blocksScored_def finishInitialization_def)
next
  case (reach_initializationFailed st)
  then show ?case by (simp add: blocksScored_def initializationFailed_def)
next
  case (reach_keyPress st eKey)
  then show ?case by (simp add: handleKeyPress_blocksScored)
next
  case (reach_effect st st')
  then show ?case
    by (auto simp add: trialProgression_def blocksScored_def split: if_splits)
next
  case (reach_timer st t d)
  then show ?case
    by (cases t) (simp_all add: blocksScored_def timerFired_def advanceTrial_def)
next
  case (reach_responseTimer st captured)
  then show ?case by (simp add: blocksScored_def advanceTrial_def)
next
  case (reach_togglePause st)
  then show ?case by (simp add: blocksScored_def togglePause_def)
next
  case (reach_endSession st)
  then show ?case by (simp add: endSession_blocksScored)
next
  case (reach_toggleDebugMode st)
  then show ?case by (simp add: blocksScored_def toggleDebugMode_def)
next
  case (reach_debugSession st session)
  then show ?case by (simp add: blocksScored_def debugSessionButton_def)
next
  case (reach_debugBlock st block)
  then show ?case by (simp add: blocksScored_def debugBlockButton_def)
qed

section \<open>Properties of the trial generator\<close>

lemma length_spliceInsert: "length (spliceInsert p x xs) = Suc (length xs)"
  by (simp add: spliceInsert_def Let_def)

lemma set_spliceInsert: "set (spliceInsert p x xs) = insert x (set xs)"
proof -
  have "set (take k xs) \<union> set (drop k xs) = set xs" for k
    by (metis append_take_drop_id set_append)
  then show ?thesis
    by (auto simp add: spliceInsert_def Let_def)
qed

lemma draw_position_bounds:
  fixes r :: rat
  assumes "0 \<le> r" and "r < 1" and "0 \<le> n"
  shows "0 \<le> \<lfloor>r * of_int n\<rfloor>" and "\<lfloor>r * of_int n\<rfloor> \<le> n" and "0 < n \<Longrightarrow> \<lfloor>r * of_int n\<rfloor> < n"
proof -
  show "0 \<le> \<lfloor>r * of_int n\<rfloor>" using assms by simp
  have "r * of_int n \<le> of_int n"
    using assms by (simp add: mult_left_le_one_le)
  then show "\<lfloor>r * of_int n\<rfloor> \<le> n"
    by (metis floor_mono floor_of_int)
  show "\<lfloor>r * of_int n\<rfloor> < n" if "0 < n"
  proof -
    have "r * of_int n < of_int n" using assms that by simp
    then show ?thesis by (simp add: floor_less_iff)
  qed
qed

lemma insertRepeats_set:
  "insertRepeats ref m draws arr used c = Some (Inr ys) \<Longrightarrow> set ys \<subseteq> set arr"
proof (induction ref m draws arr used c rule: insertRepeats.induct)
  case (1 ref m arr used c)
  then show ?case by (simp split: if_splits)
next
  case (2 ref m r rest arr used c)
  show ?case
  proof (cases "c < m")
    case False
    with "2.prems" show ?thesis by simp
  next
    case True
    let ?pos = "\<lfloor>r * of_int (int (length arr) - 1)\<rfloor> + 1"
    from "2.prems" True have inr: "\<not> (?pos - 1 < 0 \<or> ?pos - 1 \<ge> int (length arr))"
      by (auto simp add: Let_def split: if_splits)
    let ?img = "arr ! nat (?pos - 1)"
    let ?idx = "findIndex (\<lambda>img. trial_id img = trial_id ?img) ref"
    have "nat (?pos - 1) < length arr" using inr by linarith
    then have mem: "?img \<in> set arr" by (rule nth_mem)
    show ?thesis
    proof (cases "?idx \<notin> used")
      case True
      with "2.prems" \<open>c < m\<close> inr
      have "insertRepeats ref m rest (spliceInsert ?pos ?img arr) (insert ?idx used) (c + 1) = Some (Inr ys)"
        by (simp add: Let_def)
      from "2.IH"(1) [OF \<open>c < m\<close> refl inr refl refl True this]
      show ?thesis using mem by (auto simp add: set_spliceInsert)
    next
      case False
      with "2.prems" \<open>c < m\<close> inr
      have "insertRepeats ref m rest arr used c = Some (Inr ys)"
        by (simp add: Let_def)
      from "2.IH"(2) [OF \<open>c < m\<close> refl inr refl refl False this]
      show ?thesis .
    qed
  qed
qed

lemma insertRepeats_length:
  "insertRepeats ref m draws arr used c = Some (Inr ys) \<Longrightarrow> length ys = length arr + (m - c)"
proof (induction ref m draws arr used c rule: insertRepeats.induct)
  case (1 ref m arr used c)
  then show ?case by (simp split: if_splits)
next
  case (2 ref m r rest arr used c)
  show ?case
  proof (cases "c < m")
    case False
    with "2.prems" show ?thesis by simp
  next
    case True
    let ?pos = "\<lfloor>r * of_int (int (length arr) - 1)\<rfloor> + 1"
    from "2.prems" True have inr: "\<not> (?pos - 1 < 0 \<or> ?pos - 1 \<ge> int (length arr))"
      by (auto simp add: Let_def split: if_splits)
    let ?img = "arr ! nat (?pos - 1)"
    let ?idx = "findIndex (\<lambda>img. trial_id img = trial_id ?img) ref"
    show ?thesis
    proof (cases "?idx \<notin> used")
      case True
      with "2.prems" \<open>c < m\<close> inr
      have "insertRepeats ref m rest (spliceInsert ?pos ?img arr) (insert ?idx used) (c + 1) = Some (Inr ys)"
        by (simp add: Let_def)
      from "2.IH"(1) [OF \<open>c < m\<close> refl inr refl refl True this]
      show ?thesis using \<open>c < m\<close> by (simp add: length_spliceInsert)
    next
      case False
      with "2.prems" \<open>c < m\<close> inr
      have "insertRepeats ref m rest arr used c = Some (Inr ys)"
        by (simp add: Let_def)
      from "2.IH"(2) [OF \<open>c < m\<close> refl inr refl refl False this]
      show ?thesis .
    qed
  qed
qed


lemma insertCue_position:
  assumes "\<forall>r\<in>set draws. 0 \<le> r \<and> r < 1" and "insertCue c draws ts = Some (ts', rest)"
  shows "(\<exists>p\<le>length ts. ts' = take p ts @ c # drop p ts
           \<and> (0 < p \<longrightarrow> \<not> isPMCue (ts ! (p - 1))) \<and> (p < length ts \<longrightarrow> \<not> isPMCue (ts ! p)))
         \<and> set rest \<subseteq> set draws"
  using assms
proof (induction c draws ts rule: insertCue.induct)
  case (1 pmCue ts)
  then show ?case by simp
next
  case (2 pmCue r rs ts)
  let ?pos = "\<lfloor>r * of_int (int (length ts) + 1)\<rfloor>"
  let ?retry = "(?pos > 0 \<and> isPMCueAt ts (?pos - 1)) \<or> (?pos < int (length ts) \<and> isPMCueAt ts ?pos)"
  have r: "0 \<le> r" "r < 1" and rest: "\<forall>r\<in>set rs. 0 \<le> r \<and> r < 1"
    using "2.prems"(1) by simp_all
  have unfolded: "(if ?retry then insertCue pmCue rs ts else Some (spliceInsert ?pos pmCue ts, rs))
      = Some (ts', rest)"
    using "2.prems"(2) by (simp only: insertCue.simps Let_def)
  show ?case
  proof (cases ?retry)
    case True
    with unfolded have "insertCue pmCue rs ts = Some (ts', rest)" by (simp only: if_True)
    from "2.IH" [OF refl True rest this] show ?thesis by auto
  next
    case False
    with unfolded have "Some (spliceInsert ?pos pmCue ts, rs) = Some (ts', rest)"
      by (simp only: if_False)
    then have res: "ts' = spliceInsert ?pos pmCue ts" and rs: "rest = rs" by simp_all
    have b: "0 \<le> ?pos" "?pos < int (length ts) + 1"
      using draw_position_bounds(1,3) [OF r, of "int (length ts) + 1"] by simp_all
    define p where "p = nat ?pos"
    have p: "?pos = int p" "p \<le> length ts" using b by (simp_all add: p_def)
    have "spliceInsert ?pos pmCue ts = take p ts @ pmCue # drop p ts"
      unfolding p(1) using p(2) by (simp add: spliceInsert_def Let_def)
    moreover have "0 < p \<longrightarrow> \<not> isPMCue (ts ! (p - 1))"
      using False p(2) unfolding p(1) by (auto simp add: isPMCueAt_def nat_diff_distrib')
    moreover have "p < length ts \<longrightarrow> \<not> isPMCue (ts ! p)"
      using False unfolding p(1) by (auto simp add: isPMCueAt_def)
    ultimately show ?thesis using res rs p(2) by auto
  qed
qed

lemma insert_keeps_cues_apart:
  assumes "cuesApart ts" and "p \<le> length ts"
    and "0 < p \<longrightarrow> \<not> isPMCue (ts ! (p - 1))" and "p < length ts \<longrightarrow> \<not> isPMCue (ts ! p)"
  shows "cuesApart (take p ts @ c # drop p ts)"
  unfolding cuesApart_def
proof (intro allI impI)
  fix i
  assume i: "i + 1 < length (take p ts @ c # drop p ts)"
  have nth: "(take p ts @ c # drop p ts) ! j = (if j < p then ts ! j else if j = p then c else ts ! (j - 1))"
    if "j \<le> length ts" for j
    using that assms(2) by (auto simp add: nth_append min_def nth_Cons')
  have old: "\<not> (isPMCue (ts ! j) \<and> isPMCue (ts ! (j + 1)))" if "j + 1 < length ts" for j
    using assms(1) that by (simp add: cuesApart_def)
  from i assms(2) have il: "i + 1 \<le> length ts" by simp
  consider "i + 1 < p" | "i + 1 = p" | "i = p" | "p < i" by linarith
  then show "\<not> (isPMCue ((take p ts @ c # drop p ts) ! i)
               \<and> isPMCue ((take p ts @ c # drop p ts) ! (i + 1)))"
  proof cases
    case 1
    then show ?thesis using nth [of i] nth [of "i + 1"] il old [of i] assms(2) by simp
  next
    case 2
    then show ?thesis using nth [of i] il assms(3) by auto
  next
    case 3
    then show ?thesis using nth [of "i + 1"] il assms(4) by auto
  next
    case 4
    then show ?thesis using nth [of i] nth [of "i + 1"] il old [of "i - 1"] by auto
  qed
qed

lemma insertCues_keeps_cues_apart:
  "\<forall>r\<in>set draws. 0 \<le> r \<and> r < 1 \<Longrightarrow> cuesApart ts
     \<Longrightarrow> insertCues cues draws ts = Some ts' \<Longrightarrow> cuesApart ts'"
proof (induction cues arbitrary: draws ts)
  case Nil
  then show ?case by simp
next
  case (Cons c cues)
  from Cons.prems(3) obtain ts1 rest where step: "insertCue c draws ts = Some (ts1, rest)"
    and more: "insertCues cues rest ts1 = Some ts'"
    by (auto split: option.splits)
  from insertCue_position [OF Cons.prems(1) step]
  obtain p where p: "p \<le> length ts" "ts1 = take p ts @ c # drop p ts"
      "0 < p \<longrightarrow> \<not> isPMCue (ts ! (p - 1))" "p < length ts \<longrightarrow> \<not> isPMCue (ts ! p)"
    and rest: "set rest \<subseteq> set draws"
    by blast
  have "cuesApart ts1"
    unfolding p(2) using insert_keeps_cues_apart [OF Cons.prems(2) p(1) p(3) p(4)] .
  moreover have "\<forall>r\<in>set rest. 0 \<le> r \<and> r < 1" using rest Cons.prems(1) by blast
  ultimately show ?case using Cons.IH more by blast
qed


lemma length_imagesOf: "length (imagesOf s) = 76"
  by (simp add: imagesOf_def generateImagePaths_def)

lemma length_shuffled: "length (shuffled p xs) = length xs"
  by (simp add: shuffled_def isPermutation_def)

lemma set_shuffled: "set (shuffled p xs) \<subseteq> set xs"
  by (auto simp add: shuffled_def isPermutation_def list_all_iff)

lemma regularImages_not_cue:
  "t \<in> set (map (\<lambda>(index, src). regularImage s b index src) xs) \<Longrightarrow> \<not> isPMCue t"
  by (auto simp add: regularImage_def)

lemma no_cues_apart: "\<forall>t\<in>set ts. \<not> isPMCue t \<Longrightarrow> cuesApart ts"
  by (simp add: cuesApart_def)

text \<open>The main path, cut at the point where the cues are inserted.\<close>

lemma prepare_main_path:
  assumes "prepareSessionTrialsWith tables s b False rnd = Some (Inr res)"
  shows "\<exists>uniqueImages. (\<forall>t\<in>set uniqueImages. \<not> isPMCue t)
      \<and> (b < 3 \<longrightarrow> length uniqueImages = 64)
      \<and> insertCues (shuffled (cueShuffle rnd) (selectCues tables s b)) (cueDraws rnd) uniqueImages
           = Some (st_trials res)
      \<and> st_pmCues res = selectCues tables s b"
proof -
  define regularImages where "regularImages = map (\<lambda>(index, src). regularImage s b index src)
            (enumerate 0 (take 70 (shuffled (imageShuffle rnd) (imagesOf s))))"
  define loop where "loop = (case nBackMatchesPerBlock b of
                    None \<Rightarrow> Some (Inr [])
                  | Some nBackMatches \<Rightarrow>
                      insertRepeats regularImages nBackMatches (repeatDraws rnd)
                        (take (70 - 6 - nBackMatches) regularImages) {} 0)"
  have len: "length regularImages = 70"
    by (simp add: regularImages_def length_shuffled length_imagesOf)
  from assms obtain uniqueImages where u: "loop = Some (Inr uniqueImages)"
    and c: "insertCues (shuffled (cueShuffle rnd) (selectCues tables s b)) (cueDraws rnd) uniqueImages
           = Some (st_trials res)"
    and p: "st_pmCues res = selectCues tables s b"
    unfolding prepareSessionTrialsWith_def loop_def regularImages_def
    by (auto simp add: Let_def split: option.splits sum.splits)
  have "\<forall>t\<in>set uniqueImages. \<not> isPMCue t"
  proof (cases "nBackMatchesPerBlock b")
    case None
    with u show ?thesis by (simp add: loop_def)
  next
    case (Some m)
    with u have "set uniqueImages \<subseteq> set (take (70 - 6 - m) regularImages)"
      using insertRepeats_set by (simp add: loop_def)
    then have "set uniqueImages \<subseteq> set regularImages"
      using set_take_subset by fastforce
    then show ?thesis
      using regularImages_not_cue unfolding regularImages_def by blast
  qed
  moreover have "b < 3 \<longrightarrow> length uniqueImages = 64"
  proof
    assume b: "b < 3"
    then consider "b = 0" | "b = 1" | "b = 2" by linarith
    then obtain m where m: "nBackMatchesPerBlock b = Some m" and mb: "m \<le> 64"
      by cases (simp_all add: nBackMatchesPerBlock_def)
    with u have "length uniqueImages = length (take (70 - 6 - m) regularImages) + (m - 0)"
      using insertRepeats_length by (simp add: loop_def)
    then show "length uniqueImages = 64" using len mb by simp
  qed
  ultimately show ?thesis using c p by blast
qed


text \<open>
  Claim C7. With draws in \<open>[0, 1)\<close>, every trial list the main path of the generator
  returns has no two neighbours that are both cue trials. Each cue is inserted at a
  position of the list whose left and right neighbours are not cues, and the later
  insertions keep the cues apart.
\<close>

theorem generator_keeps_cues_apart:
  assumes "\<forall>r\<in>set (cueDraws rnd). 0 \<le> r \<and> r < 1"
    and "prepareSessionTrialsWith tables sessionType blockIndex False rnd = Some (Inr res)"
  shows "(\<forall>i. i + 1 < length (st_trials res)
            \<longrightarrow> \<not> (isPMCue (st_trials res ! i) \<and> isPMCue (st_trials res ! (i + 1))))
     \<and> (\<forall>pmCue draws ts ts' rest.
           (\<forall>r\<in>set draws. 0 \<le> r \<and> r < 1) \<and> insertCue pmCue draws ts = Some (ts', rest)
           \<longrightarrow> (\<exists>p\<le>length ts. ts' = take p ts @ pmCue # drop p ts
                  \<and> (0 < p \<longrightarrow> \<not> isPMCue (ts ! (p - 1)))
                  \<and> (p < length ts \<longrightarrow> \<not> isPMCue (ts ! p))))"
proof -
  from prepare_main_path [OF assms(2)] obtain uniqueImages
    where u: "\<forall>t\<in>set uniqueImages. \<not> isPMCue t"
      and c: "insertCues (shuffled (cueShuffle rnd) (selectCues tables sessionType blockIndex))
                (cueDraws rnd) uniqueImages = Some (st_trials res)"
    by blast
  have "cuesApart (st_trials res)"
    using insertCues_keeps_cues_apart [OF assms(1) no_cues_apart [OF u] c] .
  then have a: "\<forall>i. i + 1 < length (st_trials res)
            \<longrightarrow> \<not> (isPMCue (st_trials res ! i) \<and> isPMCue (st_trials res ! (i + 1)))"
    by (simp add: cuesApart_def)
  have b: "\<forall>pmCue draws ts ts' rest.
           (\<forall>r\<in>set draws. 0 \<le> r \<and> r < 1) \<and> insertCue pmCue draws ts = Some (ts', rest)
           \<longrightarrow> (\<exists>p\<le>length ts. ts' = take p ts @ pmCue # drop p ts
                  \<and> (0 < p \<longrightarrow> \<not> isPMCue (ts ! (p - 1)))
                  \<and> (p < length ts \<longrightarrow> \<not> isPMCue (ts ! p)))"
    using insertCue_position by blast
  from a b show ?thesis by (rule conjI)
qed

lemma showNat_nonempty: "showNat n \<noteq> []"
  by (subst showNat.simps) simp

lemma digitChar_inj: "a < 10 \<Longrightarrow> b < 10 \<Longrightarrow> digitChar a = digitChar b \<Longrightarrow> a = b"
proof -
  assume a: "a < 10" and b: "b < 10" and e: "digitChar a = digitChar b"
  have d: "distinct ''0123456789''" by simp
  have "length ''0123456789'' = 10" by simp
  with a b e d show "a = b"
    unfolding digitChar_def by (metis nth_eq_iff_index_eq)
qed

lemma showNat_inj: "showNat m = showNat n \<Longrightarrow> m = n"
proof (induction m arbitrary: n rule: showNat.induct)
  case (1 m)
  show ?case
  proof (cases "m < 10")
    case True
    then have sm: "showNat m = [digitChar m]" by (subst showNat.simps) simp
    show ?thesis
    proof (cases "n < 10")
      case True
      then have "showNat n = [digitChar n]" by (subst showNat.simps) simp
      with sm "1.prems" \<open>m < 10\<close> True show ?thesis by (simp add: digitChar_inj)
    next
      case False
      then have "showNat n = showNat (n div 10) @ [digitChar (n mod 10)]"
        by (subst showNat.simps) simp
      with sm "1.prems" showNat_nonempty [of "n div 10"] show ?thesis
        by (cases "showNat (n div 10)") simp_all
    qed
  next
    case False
    then have sm: "showNat m = showNat (m div 10) @ [digitChar (m mod 10)]"
      by (subst showNat.simps) simp
    show ?thesis
    proof (cases "n < 10")
      case True
      then have "showNat n = [digitChar n]" by (subst showNat.simps) simp
      with sm "1.prems" showNat_nonempty [of "m div 10"] show ?thesis
        by (cases "showNat (m div 10)") simp_all
    next
      case nb: False
      then have "showNat n = showNat (n div 10) @ [digitChar (n mod 10)]"
        by (subst showNat.simps) simp
      with sm "1.prems" have e1: "showNat (m div 10) = showNat (n div 10)"
        and e2: "digitChar (m mod 10) = digitChar (n mod 10)" by simp_all
      from "1.IH" [OF False e1] have "m div 10 = n div 10" .
      moreover from e2 have "m mod 10 = n mod 10" by (simp add: digitChar_inj)
      ultimately show ?thesis by (metis div_mult_mod_eq)
    qed
  qed
qed

lemma regularImage_id_eq [simp]:
  "(trial_id (regularImage s b j x) = trial_id (regularImage s b k y)) = (j = k)"
  by (auto simp add: regularImage_def dest: showNat_inj)

lemma regularImage_isPMCue [simp]: "isPMCue (regularImage s b k x) = False"
  by (simp add: regularImage_def)

lemma pmCueImage_isPMCue [simp]: "isPMCue (pmCueImage c n i) = True"
  by (simp add: pmCueImage_def)

lemma pmCueImage_id_neq [simp]:
  "(trial_id (pmCueImage c n i) = trial_id (regularImage s b k x)) = False"
  "(trial_id (regularImage s b k x) = trial_id (pmCueImage c n i)) = False"
  by (cases s; simp add: pmCueImage_def regularImage_def categoryName_def)+

lemma map_enumerate_nth:
  "map (\<lambda>(i, x). f i x) (enumerate n xs) = map (\<lambda>i. f (n + i) (xs ! i)) [0..<length xs]"
proof (induction xs arbitrary: n)
  case Nil
  then show ?case by simp
next
  case (Cons x xs)
  have "[0..<length (x # xs)] = 0 # map Suc [0..<length xs]"
    by (simp add: upt_conv_Cons map_Suc_upt del: upt_Suc)
  then show ?case using Cons.IH [of "Suc n"] by (simp add: comp_def)
qed

lemma regularImages_explicit:
  "map (\<lambda>(index, src). regularImage s b index src) (enumerate 0 (take 70 (imagesOf s)))
   = map (\<lambda>i. regularImage s b i (imagesOf s ! i)) [0..<70]"
  by (simp add: map_enumerate_nth length_imagesOf)

lemma shuffled_Nil [simp]: "shuffled [] xs = xs"
  by (auto simp add: shuffled_def isPermutation_def)


lemma length_doubled: "length (doubled xs) = 2 * length xs"
  by (induction xs) simp_all

lemma doubled_append: "doubled (xs @ ys) = doubled xs @ doubled ys"
  by (induction xs) simp_all

lemma findIndex_map_upt:
  assumes inj: "\<And>i j. (g (f i) = g (f j)) = (i = j)" and "a \<le> k" and "k < n"
  shows "findIndex (\<lambda>x. g x = g (f k)) (map f [a..<n]) = int (k - a)"
  using assms(2,3)
proof (induction "k - a" arbitrary: a)
  case 0
  then have "a = k" by simp
  with \<open>k < n\<close> show ?case by (simp add: upt_conv_Cons)
next
  case (Suc d)
  then have a: "a < k" "Suc a \<le> k" "a < n" by simp_all
  from Suc have "findIndex (\<lambda>x. g x = g (f k)) (map f [Suc a..<n]) = int (k - Suc a)"
    by simp
  with a show ?case
    by (simp add: upt_conv_Cons inj Let_def)
qed

lemma spliceInsert_nat:
  "p \<le> length xs \<Longrightarrow> spliceInsert (int p) x xs = take p xs @ x # drop p xs"
  by (simp add: spliceInsert_def Let_def)

lemma insertRepeats_doubling:
  assumes ref: "\<And>j. j < length xs \<Longrightarrow> findIndex (\<lambda>img. trial_id img = trial_id (xs ! j)) ref = int j"
    and m: "m < length xs" and k: "k \<le> m"
    and dpos: "\<And>j. j < m \<Longrightarrow> \<lfloor>d j * of_int (int (length xs + j) - 1)\<rfloor> = int (2 * j)"
  shows "insertRepeats ref m (map d [k..<m])
           (doubled (take k xs) @ drop k xs) (int ` {0..<k}) k
         = Some (Inr (doubled (take m xs) @ drop m xs))"
  using k
proof (induction "m - k" arbitrary: k)
  case 0
  then have "k = m" by simp
  then show ?case by simp
next
  case (Suc n)
  then have km: "k < m" and kn: "k < length xs" using m by simp_all
  let ?arr = "doubled (take k xs) @ drop k xs"
  have len: "length ?arr = length xs + k"
    using kn by (simp add: length_doubled)
  have pos: "\<lfloor>d k * of_int (int (length ?arr) - 1)\<rfloor> + 1 = int (2 * k + 1)"
    using dpos [OF km] unfolding len by simp
  have at: "?arr ! (2 * k) = xs ! k"
    using kn by (simp add: nth_append length_doubled)
  have tk: "take (2 * k + 1) ?arr = doubled (take k xs) @ [xs ! k]"
    using kn by (simp add: length_doubled take_Suc_conv_app_nth hd_drop_conv_nth take_hd_drop)
  have dr: "drop (2 * k + 1) ?arr = drop (Suc k) xs"
    using kn by (simp add: length_doubled)
  have splice: "spliceInsert (int (2 * k + 1)) (xs ! k) ?arr = doubled (take (Suc k) xs) @ drop (Suc k) xs"
  proof -
    have "2 * k + 1 \<le> length ?arr" using len kn by simp
    then have "spliceInsert (int (2 * k + 1)) (xs ! k) ?arr
        = take (2 * k + 1) ?arr @ [xs ! k] @ drop (2 * k + 1) ?arr"
      by (simp only: spliceInsert_nat append_Cons append_Nil)
    also have "\<dots> = doubled (take k xs @ [xs ! k]) @ drop (Suc k) xs"
      unfolding tk dr by (simp add: doubled_append)
    finally show ?thesis using kn by (simp add: take_Suc_conv_app_nth)
  qed
  have used: "insert (int k) (int ` {0..<k}) = int ` {0..<Suc k}"
    by (auto simp add: less_Suc_eq)
  have fresh: "int k \<notin> int ` {0..<k}" by auto
  have draws: "map d [k..<m] = d k # map d [Suc k..<m]"
    using km by (simp add: upt_conv_Cons)
  have inr: "\<not> (int (2 * k + 1) - 1 < 0 \<or> int (2 * k + 1) - 1 \<ge> int (length ?arr))"
    using len kn by simp
  have idx: "nat (int (2 * k + 1) - 1) = 2 * k" by simp
  let ?rest = "map d [Suc k..<m]"
  have "insertRepeats ref m (d k # ?rest) ?arr (int ` {0..<k}) k
      = insertRepeats ref m ?rest (spliceInsert (int (2 * k + 1)) (xs ! k) ?arr)
          (insert (int k) (int ` {0..<k})) (k + 1)"
    apply (subst insertRepeats.simps)
    apply (simp only: Let_def pos idx at ref [OF kn] km inr fresh if_True if_False
        not_False_eq_True)
    done
  also have "\<dots> = insertRepeats ref m ?rest (doubled (take (Suc k) xs) @ drop (Suc k) xs)
          (int ` {0..<Suc k}) (Suc k)"
    by (simp only: splice used Suc_eq_plus1)
  also have "\<dots> = Some (Inr (doubled (take m xs) @ drop m xs))"
    using Suc by simp
  finally have "insertRepeats ref m (d k # ?rest) ?arr (int ` {0..<k}) k
      = Some (Inr (doubled (take m xs) @ drop m xs))" .
  then show ?case by (simp only: draws)
qed

text \<open>
  A run of the main path whose sorts change nothing and whose repeat loop draws the
  positions 1, 3, 5, ...: the first \<open>m\<close> images are each repeated right after
  themselves, and the cues are inserted into that list.
\<close>

lemma prepare_doubling_run:
  assumes sh: "imageShuffle rnd = []" "cueShuffle rnd = []"
    and m: "nBackMatchesPerBlock b = Some m" and mb: "m < 64 - m"
    and dl: "length (repeatDraws rnd) = m"
    and dp: "list_all (\<lambda>(j, r). \<lfloor>r * of_int (int (64 - m + j) - 1)\<rfloor> = int (2 * j))
               (enumerate 0 (repeatDraws rnd))"
  shows "prepareSessionTrialsWith tables s b False rnd =
     (case insertCues (selectCues tables s b) (cueDraws rnd)
             (doubled (map (\<lambda>i. regularImage s b i (imagesOf s ! i)) [0..<m])
                @ map (\<lambda>i. regularImage s b i (imagesOf s ! i)) [m..<64 - m]) of
        None \<Rightarrow> None
      | Some ts \<Rightarrow> Some (Inr \<lparr>st_pmCues = selectCues tables s b, st_trials = ts\<rparr>))"
proof -
  define f where "f = (\<lambda>i. regularImage s b i (imagesOf s ! i))"
  define ref where "ref = map f [0..<70]"
  define xs where "xs = take (64 - m) ref"
  define d where "d = nth (repeatDraws rnd)"
  have lx: "length xs = 64 - m" by (simp add: xs_def ref_def)
  have xsn: "xs ! j = f j" if "j < length xs" for j
    using that lx by (simp add: xs_def ref_def)
  have find: "findIndex (\<lambda>img. trial_id img = trial_id (xs ! j)) ref = int j" if "j < length xs" for j
  proof -
    have "findIndex (\<lambda>x. trial_id x = trial_id (f j)) (map f [0..<70]) = int (j - 0)"
      using that lx by (intro findIndex_map_upt) (simp_all add: f_def)
    then show ?thesis using xsn [OF that] by (simp add: ref_def)
  qed
  have dpos: "\<lfloor>d j * of_int (int (length xs + j) - 1)\<rfloor> = int (2 * j)" if "j < m" for j
  proof -
    from that dl have "(j, repeatDraws rnd ! j) \<in> set (enumerate 0 (repeatDraws rnd))"
      by (simp add: in_set_enumerate_eq)
    with dp show ?thesis
      by (auto simp add: list_all_iff d_def lx)
  qed
  have d2: "repeatDraws rnd = map d [0..<m]"
    unfolding d_def dl [symmetric] by (simp add: map_nth)
  have "insertRepeats ref m (map d [0..<m])
           (doubled (take 0 xs) @ drop 0 xs) (int ` {0..<0}) 0
         = Some (Inr (doubled (take m xs) @ drop m xs))"
    using mb by (intro insertRepeats_doubling find dpos) (simp_all add: lx)
  then have loop: "insertRepeats ref m (repeatDraws rnd) xs {} 0
      = Some (Inr (doubled (take m xs) @ drop m xs))"
    by (simp add: d2 [symmetric])
  have tk: "take m xs = map f [0..<m]"
    using mb by (simp add: xs_def ref_def take_map)
  have dr: "drop m xs = map f [m..<64 - m]"
    using mb by (simp add: xs_def ref_def take_map drop_map)
  have regs: "map (\<lambda>(index, src). regularImage s b index src)
            (enumerate 0 (take 70 (shuffled (imageShuffle rnd) (imagesOf s)))) = ref"
    by (simp add: sh regularImages_explicit ref_def f_def)
  have loop2: "insertRepeats ref m (repeatDraws rnd) (take (64 - m) ref) {} 0
      = Some (Inr (doubled (map f [0..<m]) @ map f [m..<64 - m]))"
    unfolding xs_def [symmetric] using loop by (simp only: tk dr)
  have mm: "70 - 6 - m = 64 - m" by simp
  show ?thesis
    unfolding prepareSessionTrialsWith_def Let_def regs mm
    by (simp add: m loop2 sh f_def)
qed

lemma upt_from_zero:
  "[0..<numeral n] = 0 # [1..<numeral n]"
  "[1..<numeral n] = (if (1::nat) < numeral n then 1 # [2..<numeral n] else [])"
  "[Suc 0..<numeral n] = (if (1::nat) < numeral n then 1 # [2..<numeral n] else [])"
proof -
  show "[0..<numeral n] = 0 # [1..<numeral n]"
    by (subst upt_rec) simp
  show a: "[1..<numeral n] = (if (1::nat) < numeral n then 1 # [2..<numeral n] else [])"
    by (subst upt_rec) (simp add: numeral_2_eq_2)
  show "[Suc 0..<numeral n] = (if (1::nat) < numeral n then 1 # [2..<numeral n] else [])"
    using a by simp
qed

lemma returned_Some: "r = Some (Inr res) \<Longrightarrow> r = Some (Inr (returned r))"
  by (simp add: returned_def)

lemma splitRun_fields:
  "imageShuffle splitRun = []" "cueShuffle splitRun = []"
  "cueDraws splitRun = [18 / 1024, 778 / 1024, 797 / 1024, 816 / 1024, 834 / 1024, 851 / 1024]"
  "length (repeatDraws splitRun) = 23"
  "list_all (\<lambda>r. 0 \<le> r \<and> r < 1) (cueDraws splitRun)"
  "list_all (\<lambda>r. 0 \<le> r \<and> r < 1) (repeatDraws splitRun)"
  by (simp_all add: splitRun_def)

lemma splitRun_positions:
  "list_all (\<lambda>(j, r). \<lfloor>r * of_int (int (64 - 23 + j) - 1)\<rfloor> = int (2 * j))
     (enumerate 0 (repeatDraws splitRun))"
  by (simp add: splitRun_def floor_rat_divide_numeral)

lemma splitRun_returns:
  "\<exists>res. prepareSessionTrials Pleasant 0 False splitRun = Some (Inr res)
     \<and> length (st_trials res) = 70 \<and> cueCount (st_trials res) = 6
     \<and> repeatCount (st_trials res) = 22
     \<and> \<not> isPMCue (st_trials res ! 0) \<and> isPMCue (st_trials res ! 1) \<and> \<not> isPMCue (st_trials res ! 2)
     \<and> trial_id (st_trials res ! 0) = trial_id (st_trials res ! 2)"
proof -
  have nb: "nBackMatchesPerBlock 0 = Some 23" by (simp add: nBackMatchesPerBlock_def)
  have mb: "(23::nat) < 64 - 23" by simp
  note path = prepare_doubling_run [OF splitRun_fields(1) splitRun_fields(2) nb mb
      splitRun_fields(4) splitRun_positions]
  show ?thesis
    unfolding prepareSessionTrials_def path
    by (simp add: splitRun_fields(3) upt_from_zero upt_rec_numeral selectCues_def cuePool_def
      generatePMCuesByBlock_def blockCues_def spliceInsert_def isPMCueAt_def Let_def
      floor_rat_divide_numeral cueCount_def repeatCount_def)
qed

lemma splitRun_result:
  "prepareSessionTrials Pleasant 0 False splitRun = Some (Inr splitRunResult)"
  "length (st_trials splitRunResult) = 70" "cueCount (st_trials splitRunResult) = 6"
  "repeatCount (st_trials splitRunResult) = 22"
  "\<not> isPMCue (st_trials splitRunResult ! 0)" "isPMCue (st_trials splitRunResult ! 1)"
  "\<not> isPMCue (st_trials splitRunResult ! 2)"
  "trial_id (st_trials splitRunResult ! 0) = trial_id (st_trials splitRunResult ! 2)"
  using splitRun_returns by (auto simp add: splitRunResult_def returned_def)

text \<open>
  Claim C2, where the code departs from it. In the run \<open>splitRun\<close> the generator
  returns a block of 70 trials with 6 cue trials, but the first cue was inserted between
  the first image and its repeat: the block has 22 positions whose trial has the id of
  its predecessor, while the table of the first block asks for 23.
\<close>

theorem generator_splits_repeat_pair:
  "prepareSessionTrials Pleasant 0 False splitRun = Some (Inr splitRunResult)
   \<and> length (st_trials splitRunResult) = 70
   \<and> cueCount (st_trials splitRunResult) = 6
   \<and> nBackMatchesPerBlock 0 = Some 23
   \<and> repeatCount (st_trials splitRunResult) = 22
   \<and> isPMCue (st_trials splitRunResult ! 1)
   \<and> trial_id (st_trials splitRunResult ! 0) = trial_id (st_trials splitRunResult ! 2)"
proof -
  have "nBackMatchesPerBlock 0 = Some 23"
    by (simp add: nBackMatchesPerBlock_def)
  then show ?thesis
    by (intro conjI splitRun_result)
qed

theorem generator_keeps_cues_apart_witness:
  "list_all (\<lambda>r. 0 \<le> r \<and> r < 1) (cueDraws splitRun)
   \<and> prepareSessionTrialsWith generatePMCuesByBlock Pleasant 0 False splitRun
       = Some (Inr splitRunResult)
   \<and> \<not> isPMCue (st_trials splitRunResult ! 0)
   \<and> isPMCue (st_trials splitRunResult ! 1)
   \<and> \<not> isPMCue (st_trials splitRunResult ! 2)
   \<and> \<not> (isPMCue (st_trials splitRunResult ! 1) \<and> isPMCue (st_trials splitRunResult ! (1 + 1)))"
proof -
  have h1: "\<forall>r\<in>set (cueDraws splitRun). 0 \<le> r \<and> r < 1"
    using splitRun_fields(5) by (simp only: list_all_iff)
  have h2: "prepareSessionTrialsWith generatePMCuesByBlock Pleasant 0 False splitRun
       = Some (Inr splitRunResult)"
    using splitRun_result(1) by (simp only: prepareSessionTrials_def)
  have "(1::nat) + 1 < length (st_trials splitRunResult)"
    by (simp add: splitRun_result(2))
  with generator_keeps_cues_apart [OF h1 h2]
  have "\<not> (isPMCue (st_trials splitRunResult ! 1) \<and> isPMCue (st_trials splitRunResult ! (1 + 1)))"
    by blast
  then show ?thesis
    by (intro conjI splitRun_fields(5) h2 splitRun_result(5,6,7))
qed

section \<open>The cue pool\<close>

text \<open>What the guard for a short cue table does, for any tables.\<close>

lemma selectCues_guard:
  "selectCues tables s b =
     (if cuePool tables s b = [] then block1 (tables s) else cuePool tables s b)"
  by (simp add: selectCues_def Let_def)












end
